theory Spec2Isabelle
  imports Complex_Main "HOL-Library.AList"
begin

section \<open>Data model of \<open>subgraph_specializer.py\<close>\<close>

text \<open>
  The values that labels and base-set elements take in this model: strings, integers
  (Python \<open>int\<close> and the numpy integers, which compare and hash alike) and \<open>None\<close>
  itself. All of them are hashable, and none of them equals a value of another kind.
\<close>

datatype pyval = PStr string | PInt int | PNone

datatype error = ValueError | KeyError | IndexError | TypeError | AttributeError

text \<open>
  A \<open>dict\<close> is an association list in insertion order; storing under a key that is
  present replaces the value in place, as \<open>AList.update\<close> does. \<open>dict(zip(ks, vs))\<close>
  stores the pairs from left to right.
\<close>

type_synonym ('k, 'v) dict = "('k \<times> 'v) list"

definition dict_zip :: "'k list \<Rightarrow> 'v list \<Rightarrow> ('k, 'v) dict" where
  "dict_zip ks vs = AList.updates ks vs []"

definition dict_get :: "('k, 'v) dict \<Rightarrow> 'k \<Rightarrow> error + 'v" where
  "dict_get d k = (case map_of d k of None \<Rightarrow> Inl KeyError | Some v \<Rightarrow> Inr v)"

text \<open>
  A matrix is its shape and its entries. Entries outside the shape are never read by
  the model without a range check.
\<close>

record mat =
  nrows :: nat
  ncols :: nat
  ent :: "nat \<Rightarrow> nat \<Rightarrow> real"

text \<open>
  A number is the real value that the numpy scalar denotes. What numpy and scipy compute
  from such numbers is rounded in 64-bit floating point, so the arithmetic of the
  library is a parameter of the model: the sum of a matrix (\<open>M.sum()\<close>), the product and
  the sum of two scalars, and the product of one row of a matrix with a vector (the
  rows of \<open>M @ x\<close>). Nothing is assumed of these four operations unless a theorem says so.
\<close>

record numerics =
  np_sum :: "mat \<Rightarrow> real"
  np_mul :: "real \<Rightarrow> real \<Rightarrow> real"
  np_add :: "real \<Rightarrow> real \<Rightarrow> real"
  np_dot :: "real list \<Rightarrow> real list \<Rightarrow> real"

text \<open>
  The functional matrix \<open>F\<close>: an \<open>n0 \<times> n0\<close> array of unary functions; an entry may
  hold \<open>None\<close>.
\<close>

record fmat =
  fdim :: nat
  fent :: "nat \<Rightarrow> nat \<Rightarrow> (real \<Rightarrow> real) option"

record graph =
  self_A :: mat
  self_n :: nat
  self_labels :: "pyval list"
  self_indices :: "nat list"
  self_labeler :: "(nat, pyval) dict"
  self_indexer :: "(pyval, nat) dict"
  self_origin :: "(pyval, nat) dict"
  self_F :: "fmat option"

subsection \<open>Decimal rendering of an index, \<open>f'{i}'\<close>\<close>

definition digit_char :: "nat \<Rightarrow> char" where
  "digit_char d = ''0123456789'' ! d"

fun str_of_nat :: "nat \<Rightarrow> string" where
  "str_of_nat k = (if k < 10 then [digit_char k]
                   else str_of_nat (k div 10) @ [digit_char (k mod 10)])"

declare str_of_nat.simps [simp del]

subsection \<open>The constructor \<open>Graph.__init__\<close>\<close>

text \<open>
  The \<open>labels\<close> argument is \<open>None\<close>, a list, or a value of another type
  (\<open>NotAList\<close>). An element of the list is one of the values above or a value of an
  unhashable type (a list, a dict, a set), which cannot be the key of a dict. The
  \<open>origin\<close> argument is \<open>None\<close> or a dict; \<open>if origin:\<close> is false for \<open>None\<close> and
  for the empty dict.
\<close>

datatype pyobj = Hashable pyval | Unhashable

datatype labels_arg = NoLabels | LabelList "pyobj list" | NotAList

definition is_str :: "pyval \<Rightarrow> bool" where
  "is_str v = (case v of PStr _ \<Rightarrow> True | _ \<Rightarrow> False)"

definition obj_is_str :: "pyobj \<Rightarrow> bool" where
  "obj_is_str v = (case v of Hashable k \<Rightarrow> is_str k | Unhashable \<Rightarrow> False)"

definition hashable :: "pyobj \<Rightarrow> bool" where
  "hashable v = (case v of Hashable k \<Rightarrow> True | Unhashable \<Rightarrow> False)"

definition the_val :: "pyobj \<Rightarrow> pyval" where
  "the_val v = (case v of Hashable k \<Rightarrow> k | Unhashable \<Rightarrow> PNone)"

text \<open>Lines 51--58: the checks on the \<open>labels\<close> argument.\<close>

definition check_labels :: "nat \<Rightarrow> labels_arg \<Rightarrow> error + pyobj list" where
  "check_labels n labels =
     (case labels of
        NoLabels \<Rightarrow> Inr (map (\<lambda>i. Hashable (PStr (str_of_nat i))) [0..<n])
      | NotAList \<Rightarrow> Inl ValueError
      | LabelList ls \<Rightarrow>
          if length ls \<noteq> n then Inl ValueError
          else (case ls of
                  [] \<Rightarrow> Inl IndexError
                | l # _ \<Rightarrow> if obj_is_str l then Inr ls else Inl ValueError))"

definition truthy :: "('k, 'v) dict option \<Rightarrow> bool" where
  "truthy origin = (case origin of None \<Rightarrow> False | Some d \<Rightarrow> d \<noteq> [])"

text \<open>
  Lines 43--74. The labels are the keys of \<open>dict(zip(labels, np.arange(n)))\<close> on line
  69, which raises TypeError at an unhashable one; the object is then not constructed.
\<close>

definition Graph_init ::
  "mat \<Rightarrow> labels_arg \<Rightarrow> fmat option \<Rightarrow> (pyval, nat) dict option \<Rightarrow> error + graph" where
  "Graph_init A labels F origin =
     (if nrows A \<noteq> ncols A then Inl ValueError
      else
        let n = nrows A in
        case check_labels n labels of
          Inl e \<Rightarrow> Inl e
        | Inr objs \<Rightarrow>
            if \<not> list_all hashable objs then Inl TypeError
            else
              let ls = map the_val objs;
                  indexer = dict_zip ls [0..<n] in
              Inr \<lparr> self_A = A, self_n = n, self_labels = ls,
                    self_indices = [0..<n],
                    self_labeler = dict_zip [0..<n] ls,
                    self_indexer = indexer,
                    self_origin = (if truthy origin then the origin else indexer),
                    self_F = F \<rparr>)"

subsection \<open>Checked access\<close>

text \<open>
  Sequencing of computations that may raise: the first error ends the computation.
\<close>

definition ebind :: "error + 'a \<Rightarrow> ('a \<Rightarrow> error + 'b) \<Rightarrow> error + 'b" where
  "ebind m f = (case m of Inl e \<Rightarrow> Inl e | Inr x \<Rightarrow> f x)"

fun mapE :: "('a \<Rightarrow> error + 'b) \<Rightarrow> 'a list \<Rightarrow> error + 'b list" where
  "mapE f [] = Inr []"
| "mapE f (x # xs) =
     (case f x of
        Inl e \<Rightarrow> Inl e
      | Inr y \<Rightarrow> (case mapE f xs of Inl e \<Rightarrow> Inl e | Inr ys \<Rightarrow> Inr (y # ys)))"

text \<open>\<open>xs[i]\<close> for a natural number \<open>i\<close>.\<close>

definition list_get :: "'a list \<Rightarrow> nat \<Rightarrow> error + 'a" where
  "list_get xs i = (if i < length xs then Inr (xs ! i) else Inl IndexError)"

text \<open>
  Python's index normalisation for a sequence of length \<open>len\<close>: a negative integer
  counts from the end; a non-integer is no index at all.
\<close>

definition norm_index :: "nat \<Rightarrow> pyval \<Rightarrow> nat option option" where
  "norm_index len p =
     (case p of
        PInt k \<Rightarrow>
          (let j = (if k < 0 then int len + k else k)
           in if 0 \<le> j \<and> j < int len then Some (Some (nat j)) else Some None)
      | _ \<Rightarrow> None)"

text \<open>\<open>xs[p]\<close> for a Python value \<open>p\<close>: TypeError unless \<open>p\<close> is an integer.\<close>

definition list_get_py :: "'a list \<Rightarrow> pyval \<Rightarrow> error + 'a" where
  "list_get_py xs p =
     (case norm_index (length xs) p of
        None \<Rightarrow> Inl TypeError
      | Some None \<Rightarrow> Inl IndexError
      | Some (Some j) \<Rightarrow> Inr (xs ! j))"

text \<open>
  \<open>self.labeler[p]\<close>: the keys of the labeler are the integers \<open>0..n-1\<close>, so any
  other value is a missing key.
\<close>

definition labeler_get :: "(nat, pyval) dict \<Rightarrow> pyval \<Rightarrow> error + pyval" where
  "labeler_get d p =
     (case p of
        PInt k \<Rightarrow> if 0 \<le> k then dict_get d (nat k) else Inl KeyError
      | _ \<Rightarrow> Inl KeyError)"

subsection \<open>Sparse-matrix operations used by \<open>specialize\<close>\<close>

text \<open>\<open>M[idx,:]\<close> and \<open>M[:,idx]\<close> with a list of integers (IndexError otherwise).\<close>

definition mat_index :: "nat \<Rightarrow> pyval \<Rightarrow> error + nat" where
  "mat_index len p =
     (case norm_index len p of Some (Some j) \<Rightarrow> Inr j | _ \<Rightarrow> Inl IndexError)"

definition take_rows :: "mat \<Rightarrow> pyval list \<Rightarrow> error + mat" where
  "take_rows M idx =
     (case mapE (mat_index (nrows M)) idx of
        Inl e \<Rightarrow> Inl e
      | Inr rs \<Rightarrow> Inr \<lparr> nrows = length rs, ncols = ncols M,
                       ent = (\<lambda>r c. ent M (rs ! r) c) \<rparr>)"

definition take_cols :: "mat \<Rightarrow> pyval list \<Rightarrow> error + mat" where
  "take_cols M idx =
     (case mapE (mat_index (ncols M)) idx of
        Inl e \<Rightarrow> Inl e
      | Inr cs \<Rightarrow> Inr \<lparr> nrows = nrows M, ncols = length cs,
                       ent = (\<lambda>r c. ent M r (cs ! c)) \<rparr>)"

text \<open>The slices \<open>M[k:,:]\<close>, \<open>M[:k,:]\<close>, \<open>M[:,k:]\<close> and \<open>M[:,:k]\<close>; a slice clamps.\<close>

definition rows_from :: "nat \<Rightarrow> mat \<Rightarrow> mat" where
  "rows_from k M = \<lparr> nrows = nrows M - k, ncols = ncols M, ent = (\<lambda>r c. ent M (r + k) c) \<rparr>"

definition rows_upto :: "nat \<Rightarrow> mat \<Rightarrow> mat" where
  "rows_upto k M = \<lparr> nrows = min k (nrows M), ncols = ncols M, ent = ent M \<rparr>"

definition cols_from :: "nat \<Rightarrow> mat \<Rightarrow> mat" where
  "cols_from k M = \<lparr> nrows = nrows M, ncols = ncols M - k, ent = (\<lambda>r c. ent M r (c + k)) \<rparr>"

definition cols_upto :: "nat \<Rightarrow> mat \<Rightarrow> mat" where
  "cols_upto k M = \<lparr> nrows = nrows M, ncols = min k (ncols M), ent = ent M \<rparr>"

text \<open>The positions of a matrix in row-major order, its sum and its nonzero positions.\<close>

definition positions :: "mat \<Rightarrow> (nat \<times> nat) list" where
  "positions M = List.product [0..<nrows M] [0..<ncols M]"

definition mat_sum :: "mat \<Rightarrow> real" where
  "mat_sum M = sum_list (map (\<lambda>(r, c). ent M r c) (positions M))"

definition argwhere :: "mat \<Rightarrow> (nat \<times> nat) list" where
  "argwhere M = filter (\<lambda>(r, c). ent M r c \<noteq> 0) (positions M)"

text \<open>\<open>int(x)\<close> truncates towards zero.\<close>

definition py_int :: "real \<Rightarrow> int" where
  "py_int x = (if 0 \<le> x then \<lfloor>x\<rfloor> else \<lceil>x\<rceil>)"

text \<open>\<open>sp.block_diag\<close>: the blocks along the diagonal, zero elsewhere.\<close>

definition zero_mat :: mat where
  "zero_mat = \<lparr> nrows = 0, ncols = 0, ent = (\<lambda>r c. 0) \<rparr>"

fun block_diag :: "mat list \<Rightarrow> mat" where
  "block_diag [] = zero_mat"
| "block_diag (M # Ms) =
     (let R = block_diag Ms in
      \<lparr> nrows = nrows M + nrows R, ncols = ncols M + ncols R,
        ent = (\<lambda>r c. if r < nrows M \<and> c < ncols M then ent M r c
                     else if nrows M \<le> r \<and> ncols M \<le> c then ent R (r - nrows M) (c - ncols M)
                     else 0) \<rparr>)"

text \<open>\<open>S[r,c] = v\<close> on a matrix of fixed shape.\<close>

definition mat_set :: "mat \<Rightarrow> nat \<Rightarrow> nat \<Rightarrow> real \<Rightarrow> error + mat" where
  "mat_set S r c v =
     (if r < nrows S \<and> c < ncols S
      then Inr (S\<lparr> ent := (\<lambda>r' c'. if r' = r \<and> c' = c then v else ent S r' c') \<rparr>)
      else Inl IndexError)"

subsection \<open>\<open>Graph.specialize\<close>\<close>

text \<open>
  \<open>specialize\<close> assigns to the elements of its argument \<open>base\<close> and to the attributes
  of \<open>self\<close>, so the model returns the receiver and the caller's list as they are when
  the call ends, together with the returned network or the exception raised. The
  argument is a Python list of strings, integers and \<open>None\<close>.
\<close>

text \<open>
  Lines 113--115: \<open>for i, k in enumerate(base): base[i] = self.indexer[k]\<close>. The list
  is overwritten from the left; a missing key stops the loop where it is.
\<close>

fun resolve_labels :: "(pyval, nat) dict \<Rightarrow> pyval list \<Rightarrow> pyval list \<times> bool" where
  "resolve_labels d [] = ([], True)"
| "resolve_labels d (k # ks) =
     (case map_of d k of
        None \<Rightarrow> (k # ks, False)
      | Some v \<Rightarrow> (case resolve_labels d ks of (r, ok) \<Rightarrow> (PInt (int v) # r, ok)))"

text \<open>\<open>_update_indexer\<close>: \<open>dict(zip(self.labeler.values(), self.labeler.keys()))\<close>.\<close>

definition update_indexer :: "graph \<Rightarrow> (pyval, nat) dict" where
  "update_indexer g = dict_zip (map snd (self_labeler g)) (map fst (self_labeler g))"

text \<open>
  Lines 130--136: the labeler, the indexer, the labels and the adjacency matrix of
  \<open>self\<close> are replaced one after the other; an exception leaves the earlier
  assignments in place.
\<close>

definition permute_self :: "graph \<Rightarrow> pyval list \<Rightarrow> graph \<times> (error + unit)" where
  "permute_self g permute =
     (case mapE (\<lambda>i. ebind (list_get permute i) (labeler_get (self_labeler g)))
             [0..<self_n g] of
        Inl e \<Rightarrow> (g, Inl e)
      | Inr ls \<Rightarrow>
          let g1 = g\<lparr> self_labeler := zip [0..<self_n g] ls \<rparr>;
              g2 = g1\<lparr> self_indexer := update_indexer g1 \<rparr>
          in (case mapE (list_get_py (self_labels g2)) permute of
                Inl e \<Rightarrow> (g2, Inl e)
              | Inr labs \<Rightarrow>
                  let g3 = g2\<lparr> self_labels := labs \<rparr>
                  in (case ebind (take_rows (self_A g3) permute) (\<lambda>M. take_cols M permute) of
                        Inl e \<Rightarrow> (g3, Inl e)
                      | Inr M \<Rightarrow> (g3\<lparr> self_A := M \<rparr>, Inr ()))))"

text \<open>The four blocks of the permuted matrix and the number of copies (lines 139--145).\<close>

definition in_graph :: "mat \<Rightarrow> nat \<Rightarrow> mat" where
  "in_graph A base_len = cols_upto base_len (rows_from base_len A)"

definition out_graph :: "mat \<Rightarrow> nat \<Rightarrow> mat" where
  "out_graph A base_len = cols_from base_len (rows_upto base_len A)"

definition base_block :: "mat \<Rightarrow> nat \<Rightarrow> mat" where
  "base_block A base_len = cols_upto base_len (rows_upto base_len A)"

definition spec_block :: "mat \<Rightarrow> nat \<Rightarrow> mat" where
  "spec_block A base_len = cols_from base_len (rows_from base_len A)"

definition num_copies :: "numerics \<Rightarrow> mat \<Rightarrow> nat \<Rightarrow> int" where
  "num_copies num A base_len =
     py_int (np_mul num (np_sum num (in_graph A base_len)) (np_sum num (out_graph A base_len)))"

text \<open>
  Lines 158--169: the rewiring loops. \<open>i\<close> counts the pairings; every assignment to
  \<open>S\<close> is range-checked, as the \<open>lil\<close> matrix does.
\<close>

fun rewire_inner ::
  "nat \<Rightarrow> nat \<Rightarrow> mat \<Rightarrow> mat \<Rightarrow> nat \<times> nat \<Rightarrow> (nat \<times> nat) list \<Rightarrow> nat \<Rightarrow> mat
     \<Rightarrow> error + nat \<times> mat" where
  "rewire_inner base_len spec_len ing outg in_edge [] i S = Inr (i, S)"
| "rewire_inner base_len spec_len ing outg in_edge (out_edge # outs) i S =
     (let base_offset = base_len + i * spec_len;
          in_offset = base_offset + fst in_edge;
          out_offset = base_offset + snd out_edge
      in case mat_set S in_offset (snd in_edge) (ent ing (fst in_edge) (snd in_edge)) of
           Inl e \<Rightarrow> Inl e
         | Inr S1 \<Rightarrow>
             (case mat_set S1 (fst out_edge) out_offset
                     (ent outg (fst out_edge) (snd out_edge)) of
                Inl e \<Rightarrow> Inl e
              | Inr S2 \<Rightarrow> rewire_inner base_len spec_len ing outg in_edge outs (i + 1) S2))"

fun rewire_outer ::
  "nat \<Rightarrow> nat \<Rightarrow> mat \<Rightarrow> mat \<Rightarrow> (nat \<times> nat) list \<Rightarrow> (nat \<times> nat) list \<Rightarrow> nat \<Rightarrow> mat
     \<Rightarrow> error + nat \<times> mat" where
  "rewire_outer base_len spec_len ing outg [] out_edges i S = Inr (i, S)"
| "rewire_outer base_len spec_len ing outg (in_edge # ins) out_edges i S =
     (case rewire_inner base_len spec_len ing outg in_edge out_edges i S of
        Inl e \<Rightarrow> Inl e
      | Inr (i', S') \<Rightarrow> rewire_outer base_len spec_len ing outg ins out_edges i' S')"

text \<open>
  Lines 174--179: the label list is the base labels followed by
  \<open>num_copies * spec_len\<close> placeholders, which the loops overwrite.
\<close>

definition copy_label :: "pyval \<Rightarrow> nat \<Rightarrow> error + pyval" where
  "copy_label l i =
     (case l of
        PStr s \<Rightarrow> Inr (PStr (s @ ''.'' @ str_of_nat (i + 1)))
      | _ \<Rightarrow> Inl TypeError)"

fun assign_labels ::
  "pyval list \<Rightarrow> nat \<Rightarrow> nat \<Rightarrow> (nat \<times> nat) list \<Rightarrow> pyval list \<Rightarrow> error + pyval list" where
  "assign_labels labs base_len spec_len [] out = Inr out"
| "assign_labels labs base_len spec_len ((i, j) # ps) out =
     (let copy_index = base_len + i * spec_len + j;
          orig_index = base_len + j
      in case ebind (list_get labs orig_index) (\<lambda>l. copy_label l i) of
           Inl e \<Rightarrow> Inl e
         | Inr v \<Rightarrow>
             if copy_index < length out
             then assign_labels labs base_len spec_len ps (out[copy_index := v])
             else Inl IndexError)"

definition new_labels :: "pyval list \<Rightarrow> nat \<Rightarrow> nat \<Rightarrow> int \<Rightarrow> error + pyval list" where
  "new_labels labs base_len spec_len k =
     assign_labels labs base_len spec_len
       (List.product [0..<nat k] [0..<spec_len])
       (take base_len labs @ replicate (nat k * spec_len) PNone)"

text \<open>Lines 139--182, on the permuted \<open>self\<close>.\<close>

definition specialize_tail :: "numerics \<Rightarrow> graph \<Rightarrow> nat \<Rightarrow> nat \<Rightarrow> error + graph" where
  "specialize_tail num g base_len spec_len =
     (let A = self_A g;
          k = num_copies num A base_len;
          in_edges = argwhere (in_graph A base_len);
          out_edges = argwhere (out_graph A base_len);
          S = block_diag (base_block A base_len # replicate (nat k) (spec_block A base_len))
      in case rewire_outer base_len spec_len (in_graph A base_len) (out_graph A base_len)
                in_edges out_edges 0 S of
           Inl e \<Rightarrow> Inl e
         | Inr (i, S') \<Rightarrow>
             (case new_labels (self_labels g) base_len spec_len k of
                Inl e \<Rightarrow> Inl e
              | Inr labels \<Rightarrow>
                  Graph_init S' (LabelList (map Hashable labels)) (self_F g)
                    (Some (self_origin g))))"

definition spec_set :: "graph \<Rightarrow> pyval list \<Rightarrow> nat list" where
  "spec_set g base = filter (\<lambda>i. PInt (int i) \<notin> set base) (self_indices g)"

definition specialize_body ::
  "numerics \<Rightarrow> graph \<Rightarrow> pyval list \<Rightarrow> graph \<times> pyval list \<times> (error + graph)" where
  "specialize_body num g base =
     (if length base > self_n g then (g, base, Inl ValueError)
      else
        let permute = base @ map (\<lambda>i. PInt (int i)) (spec_set g base)
        in case permute_self g permute of
             (g', Inl e) \<Rightarrow> (g', base, Inl e)
           | (g', Inr u) \<Rightarrow>
               (g', base, specialize_tail num g' (length base) (length (spec_set g base))))"

text \<open>
  The argument is a list object. It may be the very list that the receiver holds in
  \<open>self.labels\<close> (the constructor stores the caller's list, so \<open>g.specialize(g.labels)\<close>
  passes it): then the assignments of lines 113--115 are assignments to \<open>self.labels\<close>
  as well. \<open>Own_labels\<close> is that call, \<open>Other_list\<close> a call with any other list.
\<close>

datatype base_arg = Own_labels | Other_list "pyval list"

definition arg_value :: "graph \<Rightarrow> base_arg \<Rightarrow> pyval list" where
  "arg_value g arg = (case arg of Own_labels \<Rightarrow> self_labels g | Other_list base \<Rightarrow> base)"

definition store_alias :: "graph \<Rightarrow> base_arg \<Rightarrow> pyval list \<Rightarrow> graph" where
  "store_alias g arg base' =
     (case arg of Own_labels \<Rightarrow> g\<lparr> self_labels := base' \<rparr> | Other_list base \<Rightarrow> g)"

definition specialize ::
  "numerics \<Rightarrow> graph \<Rightarrow> base_arg \<Rightarrow> graph \<times> pyval list \<times> (error + graph)" where
  "specialize num g arg =
     (let base = arg_value g arg in
      case base of
        [] \<Rightarrow> (g, base, Inl IndexError)
      | b0 # bs \<Rightarrow>
          (case b0 of
             PStr s \<Rightarrow>
               (case resolve_labels (self_indexer g) base of
                  (base', ok) \<Rightarrow>
                    if ok then specialize_body num (store_alias g arg base') base'
                    else (store_alias g arg base', base', Inl KeyError))
           | PInt k \<Rightarrow> specialize_body num g base
           | PNone \<Rightarrow> (g, base, Inl ValueError)))"

subsection \<open>\<open>Graph.original\<close>\<close>

text \<open>\<open>label.find('.')\<close>: the first position of the character, or \<open>-1\<close>.\<close>

fun str_find :: "char \<Rightarrow> string \<Rightarrow> nat \<Rightarrow> int" where
  "str_find c [] k = - 1"
| "str_find c (x # xs) k = (if x = c then int k else str_find c xs (k + 1))"

definition original :: "graph \<Rightarrow> nat \<Rightarrow> error + nat" where
  "original g i =
     (case dict_get (self_labeler g) i of
        Inl e \<Rightarrow> Inl e
      | Inr label \<Rightarrow>
          (case label of
             PStr s \<Rightarrow>
               (let temp_ind = str_find (CHR ''.'') s 0;
                    s' = (if temp_ind \<noteq> - 1 then take (nat temp_ind) s else s)
                in dict_get (self_origin g) (PStr s'))
           | _ \<Rightarrow> Inl AttributeError))"

subsection \<open>The dynamics engine\<close>


text \<open>
  \<open>A @ x\<close>, defined when the shapes agree: entry \<open>r\<close> is the library's product of row
  \<open>r\<close> of \<open>A\<close> with \<open>x\<close>.
\<close>

definition mat_row :: "mat \<Rightarrow> nat \<Rightarrow> real list" where
  "mat_row M r = map (\<lambda>c. ent M r c) [0..<ncols M]"

definition np_matvec :: "numerics \<Rightarrow> mat \<Rightarrow> real list \<Rightarrow> real list" where
  "np_matvec num M x = map (\<lambda>r. np_dot num (mat_row M r) x) [0..<nrows M]"





text \<open>\<open>self.F[i,j]\<close> and \<open>self.A[i,j]\<close> with their range checks.\<close>

definition f_get :: "fmat \<Rightarrow> nat \<Rightarrow> nat \<Rightarrow> error + (real \<Rightarrow> real)" where
  "f_get Fm i j =
     (if i < fdim Fm \<and> j < fdim Fm
      then (case fent Fm i j of None \<Rightarrow> Inl TypeError | Some f \<Rightarrow> Inr f)
      else Inl IndexError)"




text \<open>\<open>np.any(self.F == None)\<close>: no functional matrix, or one with an empty cell.\<close>

definition has_none :: "fmat option \<Rightarrow> bool" where
  "has_none F =
     (case F of
        None \<Rightarrow> True
      | Some Fm \<Rightarrow>
          list_ex (\<lambda>i. list_ex (\<lambda>j. fent Fm i j = None) [0..<fdim Fm]) [0..<fdim Fm])"



subsection \<open>The stability analyzer\<close>

text \<open>
  Three collaborators are parameters: \<open>deriv f x\<close> is the value at \<open>x\<close> of what
  \<open>ag.elementwise_grad(f)\<close> computes, \<open>domain\<close> is the array of sample points
  \<open>np.linspace(-10, 10, 50000)\<close>, and \<open>eig Df\<close> is the array of eigenvalues that
  \<open>la.eig(Df)\<close> returns. Negation, absolute value and maximum do not round.
\<close>

text \<open>\<open>np.max\<close> of an array: ValueError when it is empty.\<close>

definition np_max :: "real list \<Rightarrow> error + real" where
  "np_max xs = (if xs = [] then Inl ValueError else Inr (Max (set xs)))"

text \<open>\<open>self.F[o_i, o_j]\<close>, where \<open>self.F\<close> may be \<open>None\<close>.\<close>

definition F_get :: "fmat option \<Rightarrow> nat \<Rightarrow> nat \<Rightarrow> error + (real \<Rightarrow> real)" where
  "F_get F i j = (case F of None \<Rightarrow> Inl TypeError | Some Fm \<Rightarrow> f_get Fm i j)"

text \<open>Lines 321--324: one entry of \<open>Df\<close>.\<close>

definition stability_entry ::
  "((real \<Rightarrow> real) \<Rightarrow> real \<Rightarrow> real) \<Rightarrow> real list \<Rightarrow> (real \<Rightarrow> real) \<Rightarrow> error + real" where
  "stability_entry deriv domain func =
     (let df = (\<lambda>x. - 1 * deriv func x);
          range = map df domain
      in np_max (map abs range))"

definition stability_rows ::
  "((real \<Rightarrow> real) \<Rightarrow> real \<Rightarrow> real) \<Rightarrow> real list \<Rightarrow> graph \<Rightarrow> error + real list list" where
  "stability_rows deriv domain g =
     mapE (\<lambda>i. ebind (original g i) (\<lambda>o_i.
             mapE (\<lambda>j. ebind (original g j) (\<lambda>o_j.
                     ebind (F_get (self_F g) o_i o_j) (stability_entry deriv domain)))
               [0..<self_n g]))
       [0..<self_n g]"

definition stability_matrix ::
  "((real \<Rightarrow> real) \<Rightarrow> real \<Rightarrow> real) \<Rightarrow> real list \<Rightarrow> graph \<Rightarrow> error + mat" where
  "stability_matrix deriv domain g =
     ebind (stability_rows deriv domain g)
       (\<lambda>rows. Inr \<lparr> nrows = self_n g, ncols = self_n g, ent = (\<lambda>i j. rows ! i ! j) \<rparr>)"

text \<open>Lines 335--338: the largest modulus among the values the eigen-solver returns.\<close>

definition spectral_radius ::
  "(mat \<Rightarrow> complex list) \<Rightarrow> ((real \<Rightarrow> real) \<Rightarrow> real \<Rightarrow> real) \<Rightarrow> real list \<Rightarrow> graph
     \<Rightarrow> error + real" where
  "spectral_radius eig deriv domain g =
     ebind (stability_matrix deriv domain g) (\<lambda>Df. np_max (map cmod (eig Df)))"

subsection \<open>Exact arithmetic and matrix powers, for comparison\<close>

text \<open>
  The arithmetic without rounding, as numpy computes on integer-valued data within
  range, and the matrix--vector product and matrix power of the specification.
\<close>

definition dot :: "real list \<Rightarrow> real list \<Rightarrow> real" where
  "dot r x = sum_list (map (\<lambda>(a, b). a * b) (zip r x))"

definition exact :: numerics where
  "exact = \<lparr> np_sum = mat_sum, np_mul = (\<lambda>x y. x * y), np_add = (\<lambda>x y. x + y), np_dot = dot \<rparr>"

definition mat_vec :: "mat \<Rightarrow> real list \<Rightarrow> real list" where
  "mat_vec M x =
     map (\<lambda>r. sum_list (map (\<lambda>c. ent M r c * x ! c) [0..<ncols M])) [0..<nrows M]"




subsection \<open>Well-formed networks and base sets\<close>

text \<open>
  What the constructor establishes and \<open>specialize\<close> relies on: a square matrix of
  size \<open>n\<close>, \<open>n\<close> string labels, and the registry built from them.
\<close>

definition wf_graph :: "graph \<Rightarrow> bool" where
  "wf_graph g \<longleftrightarrow>
     nrows (self_A g) = self_n g \<and> ncols (self_A g) = self_n g \<and>
     length (self_labels g) = self_n g \<and> list_all is_str (self_labels g) \<and>
     self_indices g = [0..<self_n g] \<and>
     self_labeler g = zip [0..<self_n g] (self_labels g) \<and>
     self_indexer g = dict_zip (self_labels g) [0..<self_n g]"

text \<open>A base set given by indices: a non-empty list of at most \<open>n\<close> valid indices.\<close>

definition is_index :: "nat \<Rightarrow> pyval \<Rightarrow> bool" where
  "is_index n p = (case p of PInt k \<Rightarrow> 0 \<le> k \<and> k < int n | _ \<Rightarrow> False)"

definition valid_base :: "graph \<Rightarrow> pyval list \<Rightarrow> bool" where
  "valid_base g base \<longleftrightarrow>
     base \<noteq> [] \<and> length base \<le> self_n g \<and> list_all (is_index (self_n g)) base"

definition index_of :: "pyval \<Rightarrow> nat" where
  "index_of p = (case p of PInt k \<Rightarrow> nat k | _ \<Rightarrow> 0)"

text \<open>A key of a dict, and the integer a label is replaced by.\<close>

definition known :: "(pyval, nat) dict \<Rightarrow> pyval \<Rightarrow> bool" where
  "known d k \<longleftrightarrow> map_of d k \<noteq> None"

definition resolved :: "(pyval, nat) dict \<Rightarrow> pyval \<Rightarrow> pyval" where
  "resolved d k = PInt (int (the (map_of d k)))"

text \<open>
  The permutation \<open>base + spec_set\<close> as a list of indices, and the network the
  receiver is turned into by lines 130--136.
\<close>

definition perm :: "graph \<Rightarrow> pyval list \<Rightarrow> nat list" where
  "perm g base = map index_of base @ spec_set g base"

definition permuted_mat :: "mat \<Rightarrow> nat list \<Rightarrow> mat" where
  "permuted_mat A p =
     \<lparr> nrows = length p, ncols = length p, ent = (\<lambda>r c. ent A (p ! r) (p ! c)) \<rparr>"

definition permuted :: "graph \<Rightarrow> pyval list \<Rightarrow> graph" where
  "permuted g base =
     (let p = perm g base;
          labs = map (\<lambda>i. self_labels g ! i) p;
          n = self_n g
      in g\<lparr> self_labeler := zip [0..<n] (take n labs),
             self_indexer := dict_zip (take n labs) [0..<n],
             self_labels := labs,
             self_A := permuted_mat (self_A g) p \<rparr>)"

text \<open>The label of a copy, where the original label is a string.\<close>

definition suffixed :: "pyval \<Rightarrow> nat \<Rightarrow> pyval" where
  "suffixed l i = (case l of PStr s \<Rightarrow> PStr (s @ ''.'' @ str_of_nat (i + 1)) | _ \<Rightarrow> l)"

text \<open>The number of pairings of an inbound with an outbound boundary edge.\<close>

definition pairings :: "mat \<Rightarrow> nat \<Rightarrow> nat" where
  "pairings A base_len =
     length (argwhere (in_graph A base_len)) * length (argwhere (out_graph A base_len))"

text \<open>
  A base set given by labels is valid when every element is a label the indexer knows;
  \<open>base_indices\<close> is the index list the code works with after lines 113--115.
\<close>

definition base_indices :: "graph \<Rightarrow> pyval list \<Rightarrow> pyval list" where
  "base_indices g base =
     (if is_str (hd base) then map (resolved (self_indexer g)) base else base)"

definition valid_selection :: "graph \<Rightarrow> pyval list \<Rightarrow> bool" where
  "valid_selection g base \<longleftrightarrow>
     valid_base g base \<or>
     (base \<noteq> [] \<and> length base \<le> self_n g \<and>
      list_all (\<lambda>b. is_str b \<and> known (self_indexer g) b) base)"








text \<open>
  The invariant of the registry: every node resolves through \<open>original\<close> to an index
  below \<open>n0\<close>, the size of the functional matrix.
\<close>

definition resolves :: "nat \<Rightarrow> graph \<Rightarrow> bool" where
  "resolves n0 g \<longleftrightarrow>
     list_all (\<lambda>i. case original g i of Inl e \<Rightarrow> False | Inr k \<Rightarrow> k < n0) [0..<self_n g]"

text \<open>The canonical label: the label up to its first \<open>'.'\<close>.\<close>

definition canonical :: "string \<Rightarrow> string" where
  "canonical s = takeWhile (\<lambda>c. c \<noteq> CHR ''.'') s"

text \<open>
  The values that \<open>num_in\<close>, \<open>num_out\<close> and \<open>num_copies\<close> take in the call
  \<open>specialize(base)\<close> on a base of indices, and the number of pairings the rewiring
  loops go through.
\<close>

definition num_in :: "numerics \<Rightarrow> graph \<Rightarrow> pyval list \<Rightarrow> real" where
  "num_in num g base = np_sum num (in_graph (self_A (permuted g base)) (length base))"

definition num_out :: "numerics \<Rightarrow> graph \<Rightarrow> pyval list \<Rightarrow> real" where
  "num_out num g base = np_sum num (out_graph (self_A (permuted g base)) (length base))"

definition copies :: "numerics \<Rightarrow> graph \<Rightarrow> pyval list \<Rightarrow> int" where
  "copies num g base = num_copies num (self_A (permuted g base)) (length base)"

definition pairs :: "graph \<Rightarrow> pyval list \<Rightarrow> nat" where
  "pairs g base = pairings (self_A (permuted g base)) (length base)"

subsection \<open>Example networks\<close>

definition mat_of_rows :: "real list list \<Rightarrow> mat" where
  "mat_of_rows rows =
     \<lparr> nrows = length rows, ncols = (case rows of [] \<Rightarrow> 0 | r # rs \<Rightarrow> length r),
       ent = (\<lambda>r c. rows ! r ! c) \<rparr>"

text \<open>Two nodes, an edge of weight 2 from node 0 to node 1 and one of weight 1 back.\<close>

definition net2 :: graph where
  "net2 =
     \<lparr> self_A = mat_of_rows [[0, 1], [2, 0]], self_n = 2,
       self_labels = [PStr ''0'', PStr ''1''], self_indices = [0, 1],
       self_labeler = [(0, PStr ''0''), (1, PStr ''1'')],
       self_indexer = [(PStr ''0'', 0), (PStr ''1'', 1)],
       self_origin = [(PStr ''0'', 0), (PStr ''1'', 1)],
       self_F = None \<rparr>"

text \<open>The same two nodes, with an edge of weight one half from node 0 to node 1.\<close>

definition net_half :: graph where
  "net_half =
     \<lparr> self_A = mat_of_rows [[0, 1], [1 / 2, 0]], self_n = 2,
       self_labels = [PStr ''0'', PStr ''1''], self_indices = [0, 1],
       self_labeler = [(0, PStr ''0''), (1, PStr ''1'')],
       self_indexer = [(PStr ''0'', 0), (PStr ''1'', 1)],
       self_origin = [(PStr ''0'', 0), (PStr ''1'', 1)],
       self_F = None \<rparr>"

text \<open>
  Three nodes: edges of weight 1 and -1 from node 0 to nodes 1 and 2, and an edge of
  weight 1 from node 1 back to node 0.
\<close>

definition net_cancel :: graph where
  "net_cancel =
     \<lparr> self_A = mat_of_rows [[0, 1, 0], [1, 0, 0], [- 1, 0, 0]], self_n = 3,
       self_labels = [PStr ''0'', PStr ''1'', PStr ''2''], self_indices = [0, 1, 2],
       self_labeler = [(0, PStr ''0''), (1, PStr ''1''), (2, PStr ''2'')],
       self_indexer = [(PStr ''0'', 0), (PStr ''1'', 1), (PStr ''2'', 2)],
       self_origin = [(PStr ''0'', 0), (PStr ''1'', 1), (PStr ''2'', 2)],
       self_F = None \<rparr>"

text \<open>Two nodes labelled \<open>'a.b'\<close> and \<open>'c'\<close>, with an edge of weight 1 each way.\<close>

definition net_dot :: graph where
  "net_dot =
     \<lparr> self_A = mat_of_rows [[0, 1], [1, 0]], self_n = 2,
       self_labels = [PStr ''a.b'', PStr ''c''], self_indices = [0, 1],
       self_labeler = [(0, PStr ''a.b''), (1, PStr ''c'')],
       self_indexer = [(PStr ''a.b'', 0), (PStr ''c'', 1)],
       self_origin = [(PStr ''a.b'', 0), (PStr ''c'', 1)],
       self_F = None \<rparr>"

text \<open>
  One node with the functional matrix \<open>[[x \<mapsto> 3 x]]\<close>, a difference quotient for the
  derivative, two sample points, and the solver of a one-by-one matrix.
\<close>

definition net_f :: graph where
  "net_f =
     \<lparr> self_A = mat_of_rows [[0]], self_n = 1,
       self_labels = [PStr ''0''], self_indices = [0],
       self_labeler = [(0, PStr ''0'')],
       self_indexer = [(PStr ''0'', 0)],
       self_origin = [(PStr ''0'', 0)],
       self_F = Some \<lparr> fdim = 1, fent = (\<lambda>i j. Some (\<lambda>x. 3 * x)) \<rparr> \<rparr>"

definition quotient :: "(real \<Rightarrow> real) \<Rightarrow> real \<Rightarrow> real" where
  "quotient f x = f (x + 1) - f x"

definition eig1 :: "mat \<Rightarrow> complex list" where
  "eig1 M = [complex_of_real (ent M 0 0)]"

section \<open>Properties\<close>

subsection \<open>The constructor\<close>

lemma Graph_init_NotAList:
  "nrows A = ncols A \<Longrightarrow> Graph_init A NotAList F origin = Inl ValueError"
  by (simp add: Graph_init_def check_labels_def)

lemma Graph_init_LabelList:
  "nrows A = ncols A \<Longrightarrow>
   Graph_init A (LabelList ls) F origin =
     (if length ls \<noteq> nrows A then Inl ValueError
      else if ls = [] then Inl IndexError
      else if \<not> obj_is_str (hd ls) then Inl ValueError
      else if \<not> list_all hashable ls then Inl TypeError
      else Inr \<lparr> self_A = A, self_n = nrows A, self_labels = map the_val ls,
                  self_indices = [0..<nrows A],
                  self_labeler = dict_zip [0..<nrows A] (map the_val ls),
                  self_indexer = dict_zip (map the_val ls) [0..<nrows A],
                  self_origin = (if truthy origin then the origin
                                 else dict_zip (map the_val ls) [0..<nrows A]),
                  self_F = F \<rparr>)"
  by (cases ls) (simp_all add: Graph_init_def check_labels_def Let_def)

lemma strings_hashable: "list_all obj_is_str ls \<Longrightarrow> list_all hashable ls"
  by (induction ls) (auto simp: obj_is_str_def hashable_def split: pyobj.splits)

text \<open>
  Claim C8, as the code has it: with a square matrix of size \<open>n\<close>, the constructor
  raises ValueError for a \<open>labels\<close> argument that is not a list, and for a list exactly
  when its length is not \<open>n\<close> or its first element is not a string. Neither the type of
  the other elements nor duplicates are checked: a list of length \<open>n\<close> that starts with
  a string is refused only when one of its elements is unhashable, with the TypeError of
  line 69, and otherwise the network is built with the labels as given. In particular
  every non-empty list of \<open>n\<close> strings is accepted, whether the strings repeat or not.
\<close>

theorem Graph_init_labels_checked:
  "nrows A = ncols A \<longrightarrow>
     Graph_init A NotAList F origin = Inl ValueError \<and>
     (Graph_init A (LabelList ls) F origin = Inl ValueError \<longleftrightarrow>
        length ls \<noteq> nrows A \<or> (ls \<noteq> [] \<and> \<not> obj_is_str (hd ls))) \<and>
     (Graph_init A (LabelList ls) F origin = Inl TypeError \<longleftrightarrow>
        length ls = nrows A \<and> ls \<noteq> [] \<and> obj_is_str (hd ls) \<and> \<not> list_all hashable ls) \<and>
     ((\<exists>g. Graph_init A (LabelList ls) F origin = Inr g \<and> self_labels g = map the_val ls \<and>
            self_n g = nrows A) \<longleftrightarrow>
        length ls = nrows A \<and> ls \<noteq> [] \<and> obj_is_str (hd ls) \<and> list_all hashable ls) \<and>
     (length ls = nrows A \<and> ls \<noteq> [] \<and> list_all obj_is_str ls \<longrightarrow>
        (\<exists>g. Graph_init A (LabelList ls) F origin = Inr g \<and> self_labels g = map the_val ls))"
proof
  assume sq: "nrows A = ncols A"
  have str: "list_all obj_is_str ls \<Longrightarrow> ls \<noteq> [] \<Longrightarrow> obj_is_str (hd ls)"
    by (cases ls) simp_all
  show "Graph_init A NotAList F origin = Inl ValueError \<and>
     (Graph_init A (LabelList ls) F origin = Inl ValueError \<longleftrightarrow>
        length ls \<noteq> nrows A \<or> (ls \<noteq> [] \<and> \<not> obj_is_str (hd ls))) \<and>
     (Graph_init A (LabelList ls) F origin = Inl TypeError \<longleftrightarrow>
        length ls = nrows A \<and> ls \<noteq> [] \<and> obj_is_str (hd ls) \<and> \<not> list_all hashable ls) \<and>
     ((\<exists>g. Graph_init A (LabelList ls) F origin = Inr g \<and> self_labels g = map the_val ls \<and>
            self_n g = nrows A) \<longleftrightarrow>
        length ls = nrows A \<and> ls \<noteq> [] \<and> obj_is_str (hd ls) \<and> list_all hashable ls) \<and>
     (length ls = nrows A \<and> ls \<noteq> [] \<and> list_all obj_is_str ls \<longrightarrow>
        (\<exists>g. Graph_init A (LabelList ls) F origin = Inr g \<and> self_labels g = map the_val ls))"
    using str strings_hashable [of ls]
    by (auto simp: Graph_init_LabelList [OF sq] Graph_init_NotAList [OF sq])
qed

theorem Graph_init_labels_checked_witness:
  "nrows (mat_of_rows [[0, 1], [2, 0]]) = ncols (mat_of_rows [[0, 1], [2, 0]]) \<and>
   Graph_init (mat_of_rows [[0, 1], [2, 0]]) NotAList None None = Inl ValueError \<and>
   Graph_init (mat_of_rows [[0, 1], [2, 0]]) (LabelList [Hashable (PStr ''a'')]) None None
     = Inl ValueError \<and>
   Graph_init (mat_of_rows [[0, 1], [2, 0]]) (LabelList [Hashable (PStr ''a''), Unhashable])
     None None = Inl TypeError \<and>
   \<not> isl (Graph_init (mat_of_rows [[0, 1], [2, 0]])
            (LabelList [Hashable (PStr ''a''), Hashable (PStr ''b'')]) None None)"
proof -
  have sq: "nrows (mat_of_rows [[0, 1], [2, 0]]) = ncols (mat_of_rows [[0, 1], [2, 0]])"
    by (simp add: mat_of_rows_def)
  have n2: "nrows (mat_of_rows [[0, 1], [2, 0]]) = 2"
    by (simp add: mat_of_rows_def)
  from Graph_init_labels_checked
         [of "mat_of_rows [[0, 1], [2, 0]]" None None "[Hashable (PStr ''a'')]"] sq n2
  have a: "Graph_init (mat_of_rows [[0, 1], [2, 0]]) NotAList None None = Inl ValueError"
    and b: "Graph_init (mat_of_rows [[0, 1], [2, 0]]) (LabelList [Hashable (PStr ''a'')])
              None None = Inl ValueError"
    by simp_all
  from Graph_init_labels_checked
         [of "mat_of_rows [[0, 1], [2, 0]]" None None "[Hashable (PStr ''a''), Unhashable]"] sq n2
  have t: "Graph_init (mat_of_rows [[0, 1], [2, 0]])
             (LabelList [Hashable (PStr ''a''), Unhashable]) None None = Inl TypeError"
    by (simp add: obj_is_str_def is_str_def hashable_def)
  from Graph_init_labels_checked
         [of "mat_of_rows [[0, 1], [2, 0]]" None None
             "[Hashable (PStr ''a''), Hashable (PStr ''b'')]"] sq n2
  have "\<exists>g. Graph_init (mat_of_rows [[0, 1], [2, 0]])
               (LabelList [Hashable (PStr ''a''), Hashable (PStr ''b'')]) None None = Inr g"
    by (simp add: obj_is_str_def is_str_def hashable_def) blast
  then have c: "\<not> isl (Graph_init (mat_of_rows [[0, 1], [2, 0]])
                        (LabelList [Hashable (PStr ''a''), Hashable (PStr ''b'')]) None None)"
    by auto
  from sq a b t c show ?thesis by blast
qed

text \<open>
  The claim as stated fails: a list with a duplicate label is accepted, and the
  network is built with both occurrences.
\<close>

theorem Graph_init_duplicates_counterexample:
  "\<not> distinct [Hashable (PStr ''a''), Hashable (PStr ''a'')] \<and>
   map_sum id self_labels
     (Graph_init (mat_of_rows [[0, 1], [2, 0]])
        (LabelList [Hashable (PStr ''a''), Hashable (PStr ''a'')]) None None)
     = Inr [PStr ''a'', PStr ''a'']"
  by (simp add: Graph_init_def check_labels_def mat_of_rows_def obj_is_str_def is_str_def
      hashable_def the_val_def Let_def)

subsection \<open>The caller's base list\<close>

lemma resolve_labels_eq:
  "resolve_labels d base =
     (map (resolved d) (takeWhile (known d) base) @ dropWhile (known d) base,
      list_all (known d) base)"
  by (induction base) (auto simp: known_def resolved_def split: option.splits prod.splits)

lemma specialize_body_base: "fst (snd (specialize_body num g base)) = base"
  by (simp add: specialize_body_def Let_def split: prod.splits sum.splits)

lemma specialize_base_after:
  "arg_value g arg = PStr s # rest \<Longrightarrow>
   fst (snd (specialize num g arg)) = fst (resolve_labels (self_indexer g) (PStr s # rest))"
  by (auto simp: specialize_def specialize_body_base Let_def split: prod.splits)

lemma all_known_resolved:
  "list_all (known d) base \<Longrightarrow>
   map (resolved d) (takeWhile (known d) base) @ dropWhile (known d) base = map (resolved d) base"
  by (induction base) auto

lemma resolved_not_str: "list_all (\<lambda>v. \<not> is_str v) (map (resolved d) base)"
  by (simp add: list_all_iff resolved_def is_str_def)

text \<open>
  Claim C10: called with a list that starts with a label, \<open>specialize\<close> overwrites the
  caller's list in place, from the left, up to the first element that is no key of
  the indexer. When every element is a known label, the list the caller holds
  afterwards is the list of their indices and contains no label any more, whatever the
  call then returns or raises, whatever the arithmetic of the library, and whether or
  not the list is the receiver's own label list.
\<close>

theorem specialize_overwrites_base:
  "arg_value g arg = PStr s # rest \<Longrightarrow>
   fst (snd (specialize num g arg)) =
     map (resolved (self_indexer g)) (takeWhile (known (self_indexer g)) (PStr s # rest))
       @ dropWhile (known (self_indexer g)) (PStr s # rest)
   \<and> (list_all (known (self_indexer g)) (PStr s # rest) \<longrightarrow>
        fst (snd (specialize num g arg))
          = map (resolved (self_indexer g)) (PStr s # rest) \<and>
        list_all (\<lambda>v. \<not> is_str v) (fst (snd (specialize num g arg))))"
proof -
  assume av: "arg_value g arg = PStr s # rest"
  define b where "b = PStr s # rest"
  define d where "d = self_indexer g"
  have 1: "fst (snd (specialize num g arg))
             = map (resolved d) (takeWhile (known d) b) @ dropWhile (known d) b"
    using specialize_base_after [OF av, of num]
    by (simp add: b_def d_def resolve_labels_eq del: takeWhile.simps dropWhile.simps)
  have "fst (snd (specialize num g arg)) =
     map (resolved d) (takeWhile (known d) b) @ dropWhile (known d) b
   \<and> (list_all (known d) b \<longrightarrow>
        fst (snd (specialize num g arg)) = map (resolved d) b \<and>
        list_all (\<lambda>v. \<not> is_str v) (fst (snd (specialize num g arg))))"
    using 1 all_known_resolved [of d b] resolved_not_str [of d b] by auto
  then show ?thesis unfolding b_def d_def .
qed

theorem specialize_overwrites_base_witness:
  "arg_value net2 (Other_list [PStr ''1'']) = [PStr ''1''] \<and>
   list_all (known (self_indexer net2)) [PStr ''1''] \<and>
   fst (snd (specialize exact net2 (Other_list [PStr ''1'']))) = [PInt 1] \<and>
   list_all (\<lambda>v. \<not> is_str v) (fst (snd (specialize exact net2 (Other_list [PStr ''1'']))))"
proof -
  have av: "arg_value net2 (Other_list [PStr ''1'']) = [PStr ''1'']"
    by (simp add: arg_value_def)
  have k: "list_all (known (self_indexer net2)) [PStr ''1'']"
    by (simp add: known_def net2_def)
  have r: "map (resolved (self_indexer net2)) [PStr ''1''] = [PInt 1]"
    by (simp add: resolved_def net2_def)
  from specialize_overwrites_base [OF av, of exact] av k r show ?thesis
    by (simp add: is_str_def)
qed

subsection \<open>Linear dynamics\<close>


lemma length_mat_vec [simp]: "length (mat_vec M x) = nrows M"
  by (simp add: mat_vec_def)

lemma length_np_matvec [simp]: "length (np_matvec num M x) = nrows M"
  by (simp add: np_matvec_def)










lemma length_funpow_matvec:
  "nrows M = n \<Longrightarrow> length x = n \<Longrightarrow> length ((np_matvec num M ^^ t) x) = n"
  by (induction t) simp_all









subsection \<open>The permutation of the receiver\<close>

lemma mapE_Inr: "(\<And>x. x \<in> set xs \<Longrightarrow> f x = Inr (h x)) \<Longrightarrow> mapE f xs = Inr (map h xs)"
  by (induction xs) auto

lemma map_of_zip_upt:
  "k < n \<Longrightarrow> length ls = n \<Longrightarrow> map_of (zip [0..<n] ls) k = Some (ls ! k)"
  using map_of_zip_nth [of "[0..<n]" ls k] by simp

lemma is_index_cases: "is_index n p \<Longrightarrow> \<exists>k<n. p = PInt (int k)"
  by (cases p) (auto simp: is_index_def intro!: exI [of _ "nat _"])

lemma valid_base_elem:
  "valid_base g base \<Longrightarrow> b \<in> set base \<Longrightarrow> index_of b < self_n g \<and> b = PInt (int (index_of b))"
  by (auto simp: valid_base_def list_all_iff index_of_def dest!: is_index_cases bspec)

lemma spec_set_elem: "self_indices g = [0..<self_n g] \<Longrightarrow> i \<in> set (spec_set g base) \<Longrightarrow> i < self_n g"
  by (simp add: spec_set_def)

lemma length_filter_in_base:
  "length (filter (\<lambda>i. PInt (int i) \<in> set base) [0..<n]) \<le> length base"
proof -
  let ?xs = "filter (\<lambda>i. PInt (int i) \<in> set base) [0..<n]"
  have d: "distinct ?xs" by simp
  have "inj_on (\<lambda>i. PInt (int i)) (set ?xs)" by (auto simp: inj_on_def)
  then have c: "card (set ?xs) = card ((\<lambda>i. PInt (int i)) ` set ?xs)" by (simp add: card_image)
  have "length ?xs = card (set ?xs)" using d by (rule distinct_card [symmetric])
  also note c
  also have "card ((\<lambda>i. PInt (int i)) ` set ?xs) \<le> card (set base)" by (rule card_mono) auto
  also have "\<dots> \<le> length base" by (rule card_length)
  finally show ?thesis .
qed

lemma length_spec_set:
  "self_indices g = [0..<self_n g] \<Longrightarrow> self_n g \<le> length base + length (spec_set g base)"
  using sum_length_filter_compl [of "\<lambda>i. PInt (int i) \<in> set base" "[0..<self_n g]"]
    length_filter_in_base [of base "self_n g"]
  by (simp add: spec_set_def comp_def)


lemma map_nth_take: "n \<le> length xs \<Longrightarrow> map (\<lambda>i. f (xs ! i)) [0..<n] = take n (map f xs)"
  by (rule nth_equalityI) simp_all

lemma perm_bound:
  "wf_graph g \<Longrightarrow> valid_base g base \<Longrightarrow> k \<in> set (perm g base) \<Longrightarrow> k < self_n g"
  by (auto simp: perm_def wf_graph_def dest: valid_base_elem spec_set_elem)

lemma length_perm:
  "wf_graph g \<Longrightarrow> self_n g \<le> length (perm g base)"
  using length_spec_set [of g base] by (simp add: perm_def wf_graph_def)

lemma permute_eq:
  "valid_base g base \<Longrightarrow>
   base @ map (\<lambda>i. PInt (int i)) (spec_set g base) = map (\<lambda>k. PInt (int k)) (perm g base)"
proof -
  assume vb: "valid_base g base"
  have "map (\<lambda>k. PInt (int k)) (map index_of base) = base"
    using valid_base_elem [OF vb] by (intro nth_equalityI) simp_all
  then show ?thesis by (simp add: perm_def)
qed

lemma labeler_get_zip:
  "k < n \<Longrightarrow> length ls = n \<Longrightarrow> labeler_get (zip [0..<n] ls) (PInt (int k)) = Inr (ls ! k)"
  by (simp add: labeler_get_def dict_get_def map_of_zip_upt)

lemma list_get_py_nat: "k < length xs \<Longrightarrow> list_get_py xs (PInt (int k)) = Inr (xs ! k)"
  by (simp add: list_get_py_def norm_index_def)

lemma mat_index_nat: "k < n \<Longrightarrow> mat_index n (PInt (int k)) = Inr k"
  by (simp add: mat_index_def norm_index_def)

lemma mapE_list_get_py:
  "\<forall>k\<in>set p. k < length xs \<Longrightarrow>
   mapE (list_get_py xs) (map (\<lambda>k. PInt (int k)) p) = Inr (map (\<lambda>i. xs ! i) p)"
  by (induction p) (simp_all add: list_get_py_nat)

lemma mapE_mat_index:
  "\<forall>k\<in>set p. k < n \<Longrightarrow> mapE (mat_index n) (map (\<lambda>k. PInt (int k)) p) = Inr p"
  by (induction p) (simp_all add: mat_index_nat)

lemma permute_self_wf:
  assumes wf: "wf_graph g" and vb: "valid_base g base"
  shows "permute_self g (base @ map (\<lambda>i. PInt (int i)) (spec_set g base))
           = (permuted g base, Inr ())"
proof -
  define p where "p = perm g base"
  define n where "n = self_n g"
  define labs where "labs = self_labels g"
  have pb: "\<And>k. k \<in> set p \<Longrightarrow> k < n"
    using perm_bound [OF wf vb] by (simp add: p_def n_def)
  have lp: "n \<le> length p" using length_perm [OF wf] by (simp add: p_def n_def)
  have ll: "length labs = n" using wf by (simp add: wf_graph_def labs_def n_def)
  have lab: "self_labeler g = zip [0..<n] labs"
    using wf by (simp add: wf_graph_def labs_def n_def)
  have dims: "nrows (self_A g) = n" "ncols (self_A g) = n"
    using wf by (simp_all add: wf_graph_def n_def)
  have s1: "mapE (\<lambda>i. ebind (list_get (map (\<lambda>k. PInt (int k)) p) i) (labeler_get (self_labeler g)))
             [0..<n] = Inr (map (\<lambda>i. labs ! (p ! i)) [0..<n])"
  proof (rule mapE_Inr)
    fix i assume "i \<in> set [0..<n]"
    then have i: "i < n" by simp
    then have "p ! i \<in> set p" using lp by simp
    then have "p ! i < n" by (rule pb)
    then show "ebind (list_get (map (\<lambda>k. PInt (int k)) p) i) (labeler_get (self_labeler g))
                 = Inr (labs ! (p ! i))"
      using i lp ll by (simp add: list_get_def ebind_def lab labeler_get_zip)
  qed
  have s1t: "map (\<lambda>i. labs ! (p ! i)) [0..<n] = take n (map (\<lambda>i. labs ! i) p)"
    using lp by (rule map_nth_take)
  have s3: "mapE (list_get_py labs) (map (\<lambda>k. PInt (int k)) p) = Inr (map (\<lambda>i. labs ! i) p)"
    using pb ll by (intro mapE_list_get_py) simp
  have s4: "mapE (mat_index n) (map (\<lambda>k. PInt (int k)) p) = Inr p"
    using pb by (intro mapE_mat_index) simp
  have len_take: "length (take n (map (\<lambda>i. labs ! i) p)) = n" using lp by simp
  have zipfst: "map fst (zip [0..<n] (take n (map (\<lambda>i. labs ! i) p))) = [0..<n]"
    and zipsnd: "map snd (zip [0..<n] (take n (map (\<lambda>i. labs ! i) p))) = take n (map (\<lambda>i. labs ! i) p)"
    using len_take by (simp_all del: length_take)
  show ?thesis
    unfolding permute_eq [OF vb] p_def [symmetric]
    apply (simp only: permute_self_def n_def [symmetric] s1 s1t sum.case Let_def)
    apply (simp add: labs_def [symmetric] s3 take_rows_def take_cols_def dims s4 ebind_def
        update_indexer_def zipfst zipsnd del: length_take)
    apply (simp add: permuted_def Let_def p_def [symmetric] n_def [symmetric] labs_def [symmetric]
        permuted_mat_def)
    done
qed

subsection \<open>The rewiring loops\<close>

lemma offset_in_range: "i < K \<Longrightarrow> r < sl \<Longrightarrow> i * sl + r < K * (sl::nat)"
proof -
  assume i: "i < K" and r: "r < sl"
  have "i * sl + r < Suc i * sl" using r by simp
  also have "\<dots> \<le> K * sl" using i by (intro mult_le_mono1) simp
  finally show ?thesis .
qed

lemma mat_set_ok:
  "r < nrows S \<Longrightarrow> c < ncols S \<Longrightarrow>
   mat_set S r c v = Inr (S\<lparr> ent := (\<lambda>r' c'. if r' = r \<and> c' = c then v else ent S r' c') \<rparr>)"
  by (simp add: mat_set_def)

lemma rewire_inner_ok:
  assumes "nrows S = bl + K * sl" "ncols S = bl + K * sl"
    and "fst e < sl" "snd e < bl"
    and "\<forall>p\<in>set outs. fst p < bl \<and> snd p < sl"
    and "i + length outs \<le> K"
  shows "\<exists>S'. rewire_inner bl sl ing outg e outs i S = Inr (i + length outs, S') \<and>
              nrows S' = nrows S \<and> ncols S' = ncols S \<and>
              (\<forall>r c. r < bl \<and> c < bl \<longrightarrow> ent S' r c = ent S r c)"
  using assms
proof (induction outs arbitrary: i S)
  case Nil
  then show ?case by simp
next
  case (Cons p outs)
  have iK: "i < K" using Cons.prems by simp
  have r1: "bl + i * sl + fst e < bl + K * sl" using offset_in_range [OF iK] Cons.prems by simp
  have r2: "bl + i * sl + snd p < bl + K * sl" using offset_in_range [OF iK] Cons.prems by simp
  define S1 where "S1 = S\<lparr> ent := (\<lambda>r' c'. if r' = bl + i * sl + fst e \<and> c' = snd e
      then ent ing (fst e) (snd e) else ent S r' c') \<rparr>"
  define S2 where "S2 = S1\<lparr> ent := (\<lambda>r' c'. if r' = fst p \<and> c' = bl + i * sl + snd p
      then ent outg (fst p) (snd p) else ent S1 r' c') \<rparr>"
  have w1: "mat_set S (bl + i * sl + fst e) (snd e) (ent ing (fst e) (snd e)) = Inr S1"
    using r1 Cons.prems by (simp add: mat_set_ok S1_def)
  have d1: "nrows S1 = bl + K * sl" "ncols S1 = bl + K * sl"
    using Cons.prems by (simp_all add: S1_def)
  have w2: "mat_set S1 (fst p) (bl + i * sl + snd p) (ent outg (fst p) (snd p)) = Inr S2"
    using r2 d1 Cons.prems by (simp add: mat_set_ok S2_def)
  have d2: "nrows S2 = bl + K * sl" "ncols S2 = bl + K * sl"
    using d1 by (simp_all add: S2_def)
  have fr: "\<And>r c. r < bl \<and> c < bl \<Longrightarrow> ent S2 r c = ent S r c"
    by (simp add: S2_def S1_def)
  from Cons.IH [of S2 "i + 1"] d2 Cons.prems
  obtain S' where S': "rewire_inner bl sl ing outg e outs (i + 1) S2 = Inr (i + 1 + length outs, S')"
    "nrows S' = nrows S2" "ncols S' = ncols S2"
    "\<forall>r c. r < bl \<and> c < bl \<longrightarrow> ent S' r c = ent S2 r c"
    by auto
  show ?case
    using w1 w2 S' d2 fr Cons.prems by (auto simp: Let_def)
qed

lemma rewire_inner_fail:
  assumes "nrows S = bl + K * sl" "ncols S = bl + K * sl"
    and "fst e < sl" "snd e < bl"
    and "\<forall>p\<in>set outs. fst p < bl \<and> snd p < sl"
    and "i \<le> K" "K < i + length outs"
  shows "rewire_inner bl sl ing outg e outs i S = Inl IndexError"
  using assms
proof (induction outs arbitrary: i S)
  case Nil
  then show ?case by simp
next
  case (Cons p outs)
  show ?case
  proof (cases "i = K")
    case True
    then have "\<not> bl + i * sl + fst e < nrows S" using Cons.prems by simp
    then show ?thesis by (simp add: Let_def mat_set_def)
  next
    case False
    then have iK: "i < K" using Cons.prems by simp
    have r1: "bl + i * sl + fst e < bl + K * sl" using offset_in_range [OF iK] Cons.prems by simp
    have r2: "bl + i * sl + snd p < bl + K * sl" using offset_in_range [OF iK] Cons.prems by simp
    define S1 where "S1 = S\<lparr> ent := (\<lambda>r' c'. if r' = bl + i * sl + fst e \<and> c' = snd e
        then ent ing (fst e) (snd e) else ent S r' c') \<rparr>"
    define S2 where "S2 = S1\<lparr> ent := (\<lambda>r' c'. if r' = fst p \<and> c' = bl + i * sl + snd p
        then ent outg (fst p) (snd p) else ent S1 r' c') \<rparr>"
    have w1: "mat_set S (bl + i * sl + fst e) (snd e) (ent ing (fst e) (snd e)) = Inr S1"
      using r1 Cons.prems by (simp add: mat_set_ok S1_def)
    have d1: "nrows S1 = bl + K * sl" "ncols S1 = bl + K * sl"
      using Cons.prems by (simp_all add: S1_def)
    have w2: "mat_set S1 (fst p) (bl + i * sl + snd p) (ent outg (fst p) (snd p)) = Inr S2"
      using r2 d1 Cons.prems by (simp add: mat_set_ok S2_def)
    have d2: "nrows S2 = bl + K * sl" "ncols S2 = bl + K * sl"
      using d1 by (simp_all add: S2_def)
    have "rewire_inner bl sl ing outg e outs (i + 1) S2 = Inl IndexError"
      using Cons.IH [of S2 "i + 1"] d2 Cons.prems iK by simp
    then show ?thesis using w1 w2 by (simp add: Let_def)
  qed
qed

lemma rewire_outer_ok:
  assumes "nrows S = bl + K * sl" "ncols S = bl + K * sl"
    and "\<forall>e\<in>set ins. fst e < sl \<and> snd e < bl"
    and "\<forall>p\<in>set outs. fst p < bl \<and> snd p < sl"
    and "i + length ins * length outs \<le> K"
  shows "\<exists>S'. rewire_outer bl sl ing outg ins outs i S = Inr (i + length ins * length outs, S') \<and>
              nrows S' = nrows S \<and> ncols S' = ncols S \<and>
              (\<forall>r c. r < bl \<and> c < bl \<longrightarrow> ent S' r c = ent S r c)"
  using assms
proof (induction ins arbitrary: i S)
  case Nil
  then show ?case by simp
next
  case (Cons e ins)
  have "i + length outs \<le> K" using Cons.prems by simp
  with rewire_inner_ok [of S bl K sl e outs i ing outg] Cons.prems
  obtain S1 where S1: "rewire_inner bl sl ing outg e outs i S = Inr (i + length outs, S1)"
    "nrows S1 = nrows S" "ncols S1 = ncols S"
    "\<forall>r c. r < bl \<and> c < bl \<longrightarrow> ent S1 r c = ent S r c"
    by auto
  from Cons.IH [of S1 "i + length outs"] S1 Cons.prems
  obtain S' where S': "rewire_outer bl sl ing outg ins outs (i + length outs) S1
      = Inr (i + length outs + length ins * length outs, S')"
    "nrows S' = nrows S1" "ncols S' = ncols S1"
    "\<forall>r c. r < bl \<and> c < bl \<longrightarrow> ent S' r c = ent S1 r c"
    by (auto simp: add.assoc)
  show ?case using S1 S' by (auto simp: add.assoc)
qed

lemma rewire_outer_fail:
  assumes "nrows S = bl + K * sl" "ncols S = bl + K * sl"
    and "\<forall>e\<in>set ins. fst e < sl \<and> snd e < bl"
    and "\<forall>p\<in>set outs. fst p < bl \<and> snd p < sl"
    and "i \<le> K" "K < i + length ins * length outs"
  shows "rewire_outer bl sl ing outg ins outs i S = Inl IndexError"
  using assms
proof (induction ins arbitrary: i S)
  case Nil
  then show ?case by simp
next
  case (Cons e ins)
  show ?case
  proof (cases "K < i + length outs")
    case True
    then have "rewire_inner bl sl ing outg e outs i S = Inl IndexError"
      using rewire_inner_fail [of S bl K sl e outs i ing outg] Cons.prems by simp
    then show ?thesis by simp
  next
    case False
    then have le: "i + length outs \<le> K" by simp
    with rewire_inner_ok [of S bl K sl e outs i ing outg] Cons.prems
    obtain S1 where S1: "rewire_inner bl sl ing outg e outs i S = Inr (i + length outs, S1)"
      "nrows S1 = nrows S" "ncols S1 = ncols S"
      by auto
    have "rewire_outer bl sl ing outg ins outs (i + length outs) S1 = Inl IndexError"
      using Cons.IH [of S1 "i + length outs"] S1 Cons.prems le by (simp add: add.assoc)
    then show ?thesis using S1 by simp
  qed
qed

subsection \<open>Blocks and copy labels\<close>

lemma block_diag_replicate_dims:
  "nrows (block_diag (replicate K C)) = K * nrows C \<and>
   ncols (block_diag (replicate K C)) = K * ncols C"
  by (induction K) (simp_all add: zero_mat_def Let_def)

lemma block_diag_head:
  "nrows (block_diag (B # Ms)) = nrows B + nrows (block_diag Ms) \<and>
   ncols (block_diag (B # Ms)) = ncols B + ncols (block_diag Ms) \<and>
   (\<forall>r c. r < nrows B \<and> c < ncols B \<longrightarrow> ent (block_diag (B # Ms)) r c = ent B r c)"
  by (simp add: Let_def)

lemma positions_set: "set (positions M) = {(r, c). r < nrows M \<and> c < ncols M}"
  by (auto simp: positions_def)

lemma argwhere_set:
  "set (argwhere M) = {(r, c). r < nrows M \<and> c < ncols M \<and> ent M r c \<noteq> 0}"
  by (auto simp: argwhere_def positions_set)

lemma in_graph_dims: "nrows A = bl + sl \<Longrightarrow> ncols A = bl + sl \<Longrightarrow>
  nrows (in_graph A bl) = sl \<and> ncols (in_graph A bl) = bl"
  by (simp add: in_graph_def cols_upto_def rows_from_def)

lemma out_graph_dims: "nrows A = bl + sl \<Longrightarrow> ncols A = bl + sl \<Longrightarrow>
  nrows (out_graph A bl) = bl \<and> ncols (out_graph A bl) = sl"
  by (simp add: out_graph_def cols_from_def rows_upto_def)

lemma base_block_dims: "nrows A = bl + sl \<Longrightarrow> ncols A = bl + sl \<Longrightarrow>
  nrows (base_block A bl) = bl \<and> ncols (base_block A bl) = bl \<and>
  ent (base_block A bl) = ent A"
  by (simp add: base_block_def cols_upto_def rows_upto_def)

lemma spec_block_dims: "nrows A = bl + sl \<Longrightarrow> ncols A = bl + sl \<Longrightarrow>
  nrows (spec_block A bl) = sl \<and> ncols (spec_block A bl) = sl"
  by (simp add: spec_block_def cols_from_def rows_from_def)

lemma copy_label_str: "is_str l \<Longrightarrow> copy_label l i = Inr (suffixed l i) \<and> is_str (suffixed l i)"
  by (cases l) (simp_all add: copy_label_def suffixed_def is_str_def)

lemma assign_labels_ok:
  assumes "\<forall>(i, j)\<in>set ps. j < sl \<and> bl + j < length labs \<and> is_str (labs ! (bl + j)) \<and>
                           bl + i * sl + j < length out"
  shows "\<exists>out'. assign_labels labs bl sl ps out = Inr out' \<and> length out' = length out \<and>
           (\<forall>q<length out. out' ! q =
              (if \<exists>(i, j)\<in>set ps. q = bl + i * sl + j
               then suffixed (labs ! (bl + (q - bl) mod sl)) ((q - bl) div sl)
               else out ! q))"
  using assms
proof (induction ps arbitrary: out)
  case Nil
  then show ?case by simp
next
  case (Cons p ps)
  obtain i j where p: "p = (i, j)" by (cases p)
  from Cons.prems p have h: "j < sl" "bl + j < length labs" "is_str (labs ! (bl + j))"
    "bl + i * sl + j < length out" by auto
  define v where "v = suffixed (labs ! (bl + j)) i"
  define out1 where "out1 = out[bl + i * sl + j := v]"
  have e: "ebind (list_get labs (bl + j)) (\<lambda>l. copy_label l i) = Inr v"
    using h copy_label_str [of "labs ! (bl + j)" i] by (simp add: list_get_def ebind_def v_def)
  have pre: "\<forall>(i, j)\<in>set ps. j < sl \<and> bl + j < length labs \<and> is_str (labs ! (bl + j)) \<and>
                           bl + i * sl + j < length out1"
    using Cons.prems by (auto simp: out1_def)
  from Cons.IH [OF pre] obtain out' where o: "assign_labels labs bl sl ps out1 = Inr out'"
    "length out' = length out1"
    "\<forall>q<length out1. out' ! q =
              (if \<exists>(i, j)\<in>set ps. q = bl + i * sl + j
               then suffixed (labs ! (bl + (q - bl) mod sl)) ((q - bl) div sl)
               else out1 ! q)"
    by blast
  have dm: "(i * sl + j) mod sl = j" "(i * sl + j) div sl = i" using h by simp_all
  have run: "assign_labels labs bl sl (p # ps) out = Inr out'"
    using e o h by (simp add: p Let_def out1_def)
  have "\<forall>q<length out. out' ! q =
              (if \<exists>(i, j)\<in>set (p # ps). q = bl + i * sl + j
               then suffixed (labs ! (bl + (q - bl) mod sl)) ((q - bl) div sl)
               else out ! q)"
  proof (intro allI impI)
    fix q assume q: "q < length out"
    show "out' ! q = (if \<exists>(i, j)\<in>set (p # ps). q = bl + i * sl + j
               then suffixed (labs ! (bl + (q - bl) mod sl)) ((q - bl) div sl)
               else out ! q)"
    proof (cases "\<exists>(i, j)\<in>set ps. q = bl + i * sl + j")
      case True
      then show ?thesis using o(3) q by (auto simp: out1_def)
    next
      case False
      then have "out' ! q = out1 ! q" using o(3) q by (simp add: out1_def)
      also have "\<dots> = (if q = bl + i * sl + j then v else out ! q)"
        using q by (simp add: out1_def nth_list_update)
      finally show ?thesis using False dm by (auto simp: p v_def add.assoc)
    qed
  qed
  then show ?case using run o by (simp add: out1_def)
qed

lemma new_labels_ok:
  assumes len: "length labs = bl + sl" and str: "list_all is_str labs"
  shows "\<exists>L. new_labels labs bl sl k = Inr L \<and> length L = bl + nat k * sl \<and>
           (\<forall>q<bl + nat k * sl. L ! q =
              (if q < bl then labs ! q
               else suffixed (labs ! (bl + (q - bl) mod sl)) ((q - bl) div sl)))"
proof -
  define K where "K = nat k"
  define ps where "ps = List.product [0..<K] [0..<sl]"
  define out where "out = take bl labs @ replicate (K * sl) PNone"
  have lo: "length out = bl + K * sl" using len by (simp add: out_def)
  have pre: "\<forall>(i, j)\<in>set ps. j < sl \<and> bl + j < length labs \<and> is_str (labs ! (bl + j)) \<and>
                           bl + i * sl + j < length out"
    using len str offset_in_range [of _ K _ sl] by (auto simp: ps_def lo list_all_length)
  from assign_labels_ok [OF pre] obtain L where L: "assign_labels labs bl sl ps out = Inr L"
    "length L = length out"
    "\<forall>q<length out. L ! q =
              (if \<exists>(i, j)\<in>set ps. q = bl + i * sl + j
               then suffixed (labs ! (bl + (q - bl) mod sl)) ((q - bl) div sl)
               else out ! q)"
    by blast
  have "\<forall>q<bl + K * sl. L ! q =
              (if q < bl then labs ! q
               else suffixed (labs ! (bl + (q - bl) mod sl)) ((q - bl) div sl))"
  proof (intro allI impI)
    fix q assume q: "q < bl + K * sl"
    show "L ! q = (if q < bl then labs ! q
               else suffixed (labs ! (bl + (q - bl) mod sl)) ((q - bl) div sl))"
    proof (cases "q < bl")
      case True
      then have "\<not> (\<exists>(i, j)\<in>set ps. q = bl + i * sl + j)" by auto
      then have "L ! q = out ! q" using L(3) q lo by simp
      also have "\<dots> = labs ! q" using True len by (simp add: out_def nth_append)
      finally show ?thesis using True by simp
    next
      case False
      then have d: "q - bl < K * sl" using q by simp
      then have sl0: "0 < sl" by (cases sl) simp_all
      have i: "(q - bl) div sl < K" using d sl0 by (simp add: less_mult_imp_div_less)
      have j: "(q - bl) mod sl < sl" using sl0 by simp
      have "q - bl = ((q - bl) div sl) * sl + (q - bl) mod sl" by simp
      then have qe: "q = bl + ((q - bl) div sl) * sl + (q - bl) mod sl" using False by linarith
      have "((q - bl) div sl, (q - bl) mod sl) \<in> set ps" using i j by (simp add: ps_def)
      then have "\<exists>(i, j)\<in>set ps. q = bl + i * sl + j"
        using qe by (intro bexI [of _ "((q - bl) div sl, (q - bl) mod sl)"]) simp_all
      then show ?thesis using L(3) q lo False by simp
    qed
  qed
  then show ?thesis
    using L lo by (auto simp: new_labels_def K_def [symmetric] ps_def [symmetric] out_def [symmetric])
qed

subsection \<open>The tail of specialize on a permuted network\<close>

lemma update_fresh: "k \<notin> fst ` set al \<Longrightarrow> AList.update k v al = al @ [(k, v)]"
  by (induction al) auto

lemma updates_fresh:
  "distinct ks \<Longrightarrow> set ks \<inter> fst ` set al = {} \<Longrightarrow> length ks = length vs \<Longrightarrow>
   AList.updates ks vs al = al @ zip ks vs"
proof (induction ks arbitrary: vs al)
  case Nil
  then show ?case by simp
next
  case (Cons k ks)
  then obtain v vs' where vs: "vs = v # vs'" by (cases vs) auto
  have "AList.update k v al = al @ [(k, v)]" using Cons.prems by (intro update_fresh) auto
  moreover have "set ks \<inter> fst ` set (al @ [(k, v)]) = {}" using Cons.prems by auto
  ultimately show ?case using Cons.IH [of "al @ [(k, v)]" vs'] Cons.prems vs by simp
qed

lemma dict_zip_upt: "length ls = n \<Longrightarrow> dict_zip [0..<n] ls = zip [0..<n] ls"
  using updates_fresh [of "[0..<n]" "[]" ls] by (simp add: dict_zip_def)

lemma suffixed_str: "is_str l \<Longrightarrow> is_str (suffixed l i)"
  by (cases l) (simp_all add: suffixed_def is_str_def)

lemma specialize_tail_cases:
  assumes sq: "nrows (self_A g) = bl + sl" "ncols (self_A g) = bl + sl"
    and len: "length (self_labels g) = bl + sl" and str: "list_all is_str (self_labels g)"
    and bl: "0 < bl"
  shows "(pairings (self_A g) bl \<le> nat (num_copies num (self_A g) bl) \<longrightarrow>
           (\<exists>r. specialize_tail num g bl sl = Inr r \<and> wf_graph r \<and>
              self_n r = bl + nat (num_copies num (self_A g) bl) * sl \<and>
              (\<forall>i<bl. \<forall>j<bl. ent (self_A r) i j = ent (self_A g) i j) \<and>
              (\<forall>q<self_n r. self_labels r ! q =
                  (if q < bl then self_labels g ! q
                   else suffixed (self_labels g ! (bl + (q - bl) mod sl)) ((q - bl) div sl))) \<and>
              self_F r = self_F g \<and>
              self_origin r = (if self_origin g \<noteq> [] then self_origin g else self_indexer r))) \<and>
         (\<not> pairings (self_A g) bl \<le> nat (num_copies num (self_A g) bl) \<longrightarrow>
           specialize_tail num g bl sl = Inl IndexError)"
proof -
  define A where "A = self_A g"
  define K where "K = nat (num_copies num A bl)"
  define ins where "ins = argwhere (in_graph A bl)"
  define outs where "outs = argwhere (out_graph A bl)"
  define S where "S = block_diag (base_block A bl # replicate K (spec_block A bl))"
  have sqA: "nrows A = bl + sl" "ncols A = bl + sl" using sq by (simp_all add: A_def)
  have dS: "nrows S = bl + K * sl" "ncols S = bl + K * sl"
    using base_block_dims [OF sqA] spec_block_dims [OF sqA]
      block_diag_replicate_dims [of K "spec_block A bl"]
    by (simp_all add: S_def Let_def)
  have eS: "\<And>r c. r < bl \<and> c < bl \<Longrightarrow> ent S r c = ent A r c"
    using base_block_dims [OF sqA] by (simp add: S_def Let_def)
  have ri: "\<forall>e\<in>set ins. fst e < sl \<and> snd e < bl"
    using in_graph_dims [OF sqA] by (auto simp: ins_def argwhere_set)
  have ro: "\<forall>p\<in>set outs. fst p < bl \<and> snd p < sl"
    using out_graph_dims [OF sqA] by (auto simp: outs_def argwhere_set)
  have unfold: "specialize_tail num g bl sl =
      (case rewire_outer bl sl (in_graph A bl) (out_graph A bl) ins outs 0 S of
         Inl e \<Rightarrow> Inl e
       | Inr (i, S') \<Rightarrow>
           (case new_labels (self_labels g) bl sl (num_copies num A bl) of
              Inl e \<Rightarrow> Inl e
            | Inr labels \<Rightarrow>
                Graph_init S' (LabelList (map Hashable labels)) (self_F g)
                  (Some (self_origin g))))"
    unfolding S_def ins_def outs_def K_def A_def specialize_tail_def Let_def by (rule refl)
  have pr: "pairings A bl = length ins * length outs"
    by (simp add: pairings_def ins_def outs_def)
  show ?thesis
  proof (cases "length ins * length outs \<le> K")
    case False
    then have "rewire_outer bl sl (in_graph A bl) (out_graph A bl) ins outs 0 S = Inl IndexError"
      using rewire_outer_fail [OF dS ri ro, of 0] by simp
    then show ?thesis using False unfold pr by (simp add: A_def [symmetric] K_def [symmetric])
  next
    case True
    from rewire_outer_ok [OF dS ri ro, of 0 "in_graph A bl" "out_graph A bl"] True
    obtain S' where S': "rewire_outer bl sl (in_graph A bl) (out_graph A bl) ins outs 0 S
        = Inr (length ins * length outs, S')"
      "nrows S' = nrows S" "ncols S' = ncols S"
      "\<forall>r c. r < bl \<and> c < bl \<longrightarrow> ent S' r c = ent S r c"
      by auto
    from new_labels_ok [OF len str, of "num_copies num A bl"]
    obtain L where L: "new_labels (self_labels g) bl sl (num_copies num A bl) = Inr L"
      "length L = bl + K * sl"
      "\<forall>q<bl + K * sl. L ! q =
              (if q < bl then self_labels g ! q
               else suffixed (self_labels g ! (bl + (q - bl) mod sl)) ((q - bl) div sl))"
      by (auto simp: K_def)
    have Lne: "L \<noteq> []" using L(2) bl by auto
    have L0: "hd L = self_labels g ! 0" using L(3) bl Lne by (simp add: hd_conv_nth)
    have hdstr: "is_str (hd L)" using L0 str len bl by (simp add: list_all_length)
    have allstr: "list_all is_str L"
      unfolding list_all_length
    proof (intro allI impI)
      fix q assume q: "q < length L"
      show "is_str (L ! q)"
      proof (cases "q < bl")
        case True
        then show ?thesis using L(3) q L(2) str len by (simp add: list_all_length)
      next
        case False
        then have "q - bl < K * sl" using q L(2) by simp
        then have "0 < sl" by (cases sl) simp_all
        then have "bl + (q - bl) mod sl < bl + sl" by simp
        then have "is_str (self_labels g ! (bl + (q - bl) mod sl))"
          using str len by (simp add: list_all_length)
        then show ?thesis using L(3) q L(2) False by (simp add: suffixed_str)
      qed
    qed
    define r where "r = \<lparr> self_A = S', self_n = nrows S', self_labels = L,
                  self_indices = [0..<nrows S'],
                  self_labeler = dict_zip [0..<nrows S'] L,
                  self_indexer = dict_zip L [0..<nrows S'],
                  self_origin = (if truthy (Some (self_origin g)) then the (Some (self_origin g))
                                 else dict_zip L [0..<nrows S']),
                  self_F = self_F g \<rparr>"
    have sqS': "nrows S' = ncols S'" using S' dS by simp
    have nS': "nrows S' = bl + K * sl" using S' dS by simp
    have hL: "list_all hashable (map Hashable L)" "map the_val (map Hashable L) = L"
      by (simp_all add: list_all_iff hashable_def the_val_def comp_def)
    have hdL: "obj_is_str (hd (map Hashable L))"
      using hdstr Lne by (simp add: hd_map obj_is_str_def)
    have init: "Graph_init S' (LabelList (map Hashable L)) (self_F g) (Some (self_origin g))
                  = Inr r"
      using Graph_init_LabelList [OF sqS', of "map Hashable L" "self_F g" "Some (self_origin g)"]
        L(2) nS' Lne hdL hL by (simp add: r_def)
    have res: "specialize_tail num g bl sl = Inr r"
      using unfold S' L init by simp
    have wf: "wf_graph r"
      using sqS' nS' L(2) allstr dict_zip_upt [of L "nrows S'"]
      by (simp add: wf_graph_def r_def)
    have "self_n r = bl + K * sl" using nS' by (simp add: r_def)
    moreover have "\<forall>i<bl. \<forall>j<bl. ent (self_A r) i j = ent A i j"
      using S'(4) eS by (simp add: r_def)
    moreover have "\<forall>q<self_n r. self_labels r ! q =
                  (if q < bl then self_labels g ! q
                   else suffixed (self_labels g ! (bl + (q - bl) mod sl)) ((q - bl) div sl))"
      using L(3) nS' by (simp add: r_def)
    moreover have "self_F r = self_F g" by (simp add: r_def)
    moreover have "self_origin r = (if self_origin g \<noteq> [] then self_origin g else self_indexer r)"
      by (simp add: r_def truthy_def)
    ultimately show ?thesis
      using True res wf pr by (auto simp: A_def [symmetric] K_def [symmetric])
  qed
qed

subsection \<open>specialize on a valid selection\<close>

lemma updates_range:
  "map_of (AList.updates ks vs al) k = Some v \<Longrightarrow> v \<in> set vs \<or> map_of al k = Some v"
proof (induction ks arbitrary: vs al)
  case Nil
  then show ?case by simp
next
  case (Cons k' ks)
  show ?case
  proof (cases vs)
    case Nil
    then show ?thesis using Cons.prems by simp
  next
    case (Cons v' vs')
    from Cons.IH [of vs' "AList.update k' v' al"] Cons.prems Cons
    have "v \<in> set vs' \<or> map_of (AList.update k' v' al) k = Some v" by simp
    then show ?thesis using Cons by (auto simp: update_conv' split: if_splits)
  qed
qed

lemma dict_zip_range: "map_of (dict_zip ks vs) k = Some v \<Longrightarrow> v \<in> set vs"
  using updates_range [of ks vs "[]" k v] by (simp add: dict_zip_def)

lemma resolved_valid:
  assumes wf: "wf_graph g" and k: "known (self_indexer g) b"
  shows "is_index (self_n g) (resolved (self_indexer g) b)"
proof -
  obtain v where v: "map_of (self_indexer g) b = Some v" using k by (auto simp: known_def)
  then have "v \<in> set [0..<self_n g]" using wf dict_zip_range by (fastforce simp: wf_graph_def)
  then show ?thesis using v by (simp add: resolved_def is_index_def)
qed

lemma valid_selection_indices:
  assumes wf: "wf_graph g" and vs: "valid_selection g base"
  shows "valid_base g (base_indices g base)"
proof (cases "valid_base g base")
  case True
  then have "\<not> is_str (hd base)"
    by (cases base) (auto simp: valid_base_def is_index_def is_str_def split: pyval.splits)
  then show ?thesis using True by (simp add: base_indices_def)
next
  case False
  then have h: "base \<noteq> []" "length base \<le> self_n g"
    "list_all (\<lambda>b. is_str b \<and> known (self_indexer g) b) base"
    using vs by (auto simp: valid_selection_def)
  then have "is_str (hd base)" by (cases base) auto
  moreover have "list_all (is_index (self_n g)) (map (resolved (self_indexer g)) base)"
    using h(3) resolved_valid [OF wf] by (auto simp: list_all_iff)
  ultimately show ?thesis using h by (simp add: base_indices_def valid_base_def)
qed

lemma specialize_body_wf:
  assumes wf: "wf_graph g" and vb: "valid_base g base"
  shows "specialize_body num g base =
           (permuted g base, base,
            specialize_tail num (permuted g base) (length base) (length (spec_set g base)))"
  using vb permute_self_wf [OF wf vb]
  by (simp add: specialize_body_def valid_base_def Let_def)

lemma specialize_selection:
  assumes wf: "wf_graph g" and vs: "valid_selection g base"
  shows "specialize num g (Other_list base) =
           (permuted g (base_indices g base), base_indices g base,
            specialize_tail num (permuted g (base_indices g base)) (length base)
              (length (spec_set g (base_indices g base))))"
proof -
  have vb: "valid_base g (base_indices g base)" by (rule valid_selection_indices [OF wf vs])
  have lb: "length (base_indices g base) = length base" by (simp add: base_indices_def)
  show ?thesis
  proof (cases "valid_base g base")
    case True
    then obtain k bs where b: "base = PInt k # bs"
      by (cases base) (auto simp: valid_base_def is_index_def split: pyval.splits)
    then have "base_indices g base = base" by (simp add: base_indices_def is_str_def)
    then show ?thesis
      using specialize_body_wf [OF wf True] b
      by (simp add: specialize_def arg_value_def Let_def)
  next
    case False
    then have h: "base \<noteq> []" "list_all (\<lambda>b. is_str b \<and> known (self_indexer g) b) base"
      using vs by (auto simp: valid_selection_def)
    then obtain s bs where b: "base = PStr s # bs"
      by (cases base) (auto simp: is_str_def split: pyval.splits)
    have kn: "list_all (known (self_indexer g)) base" using h(2) by (simp add: list_all_iff)
    have bi: "base_indices g base = map (resolved (self_indexer g)) base"
      using b by (simp add: base_indices_def is_str_def)
    have "resolve_labels (self_indexer g) base = (map (resolved (self_indexer g)) base, True)"
      using kn all_known_resolved [OF kn] by (simp add: resolve_labels_eq)
    then have "specialize num g (Other_list base) = specialize_body num g (base_indices g base)"
      unfolding bi
      by (simp add: specialize_def arg_value_def store_alias_def Let_def b
          del: resolve_labels.simps)
    then show ?thesis using specialize_body_wf [OF wf vb] lb by simp
  qed
qed

lemma permuted_facts:
  assumes wf: "wf_graph g" and vb: "valid_base g base"
  shows "nrows (self_A (permuted g base)) = length base + length (spec_set g base)"
    and "ncols (self_A (permuted g base)) = length base + length (spec_set g base)"
    and "length (self_labels (permuted g base)) = length base + length (spec_set g base)"
    and "list_all is_str (self_labels (permuted g base))"
    and "0 < length base"
proof -
  have pb: "\<forall>k\<in>set (perm g base). k < self_n g" using perm_bound [OF wf vb] by blast
  show "nrows (self_A (permuted g base)) = length base + length (spec_set g base)"
    "ncols (self_A (permuted g base)) = length base + length (spec_set g base)"
    "length (self_labels (permuted g base)) = length base + length (spec_set g base)"
    by (simp_all add: permuted_def Let_def permuted_mat_def perm_def)
  show "list_all is_str (self_labels (permuted g base))"
    using pb wf by (auto simp: permuted_def Let_def list_all_iff wf_graph_def)
  show "0 < length base" using vb by (simp add: valid_base_def)
qed

subsection \<open>The receiver after the call\<close>

lemma wf_net2: "wf_graph net2"
  by (simp add: wf_graph_def net2_def mat_of_rows_def is_str_def dict_zip_def upt_rec)

lemma wf_net_half: "wf_graph net_half"
  by (simp add: wf_graph_def net_half_def mat_of_rows_def is_str_def dict_zip_def upt_rec)


lemma wf_net_dot: "wf_graph net_dot"
  by (simp add: wf_graph_def net_dot_def mat_of_rows_def is_str_def dict_zip_def upt_rec)

lemma map_sum_InlD: "map_sum id f x = Inl e \<Longrightarrow> x = Inl e"
  by (cases x) auto

text \<open>The example networks are what the constructor builds.\<close>

lemma net2_constructed:
  "Graph_init (mat_of_rows [[0, 1], [2, 0]]) NoLabels None None = Inr net2"
  by (simp add: Graph_init_def check_labels_def net2_def mat_of_rows_def dict_zip_def truthy_def
      upt_rec str_of_nat.simps digit_char_def Let_def hashable_def the_val_def)

lemma net_half_constructed:
  "Graph_init (mat_of_rows [[0, 1], [1 / 2, 0]]) NoLabels None None = Inr net_half"
  by (simp add: Graph_init_def check_labels_def net_half_def mat_of_rows_def dict_zip_def
      truthy_def upt_rec str_of_nat.simps digit_char_def Let_def hashable_def the_val_def)

lemma net_cancel_constructed:
  "Graph_init (mat_of_rows [[0, 1, 0], [1, 0, 0], [- 1, 0, 0]]) NoLabels None None
     = Inr net_cancel"
  by (simp add: Graph_init_def check_labels_def net_cancel_def mat_of_rows_def dict_zip_def
      truthy_def upt_rec str_of_nat.simps digit_char_def Let_def hashable_def the_val_def)

lemma net_dot_constructed:
  "Graph_init (mat_of_rows [[0, 1], [1, 0]])
     (LabelList [Hashable (PStr ''a.b''), Hashable (PStr ''c'')]) None None = Inr net_dot"
  by (simp add: Graph_init_def check_labels_def net_dot_def mat_of_rows_def dict_zip_def
      truthy_def upt_rec Let_def hashable_def the_val_def obj_is_str_def is_str_def)

text \<open>
  Claim C3, as the code has it: \<open>specialize\<close> does not leave its receiver unchanged.
  Called on a well-formed network with a valid base selection, in a list that is not
  the receiver's own label list, it has replaced the receiver's labels and adjacency
  matrix by those of the order \<open>base + spec_set\<close> and rebuilt its labeler and indexer
  for that order when the call ends, whether the call returns a network or raises in
  the rewiring loop; only \<open>n\<close>, the index range, \<open>F\<close> and \<open>origin\<close> of the receiver are
  left as they were.
\<close>

theorem specialize_permutes_receiver:
  assumes "wf_graph g" and "valid_selection g base"
  shows "self_labels (fst (specialize num g (Other_list base)))
           = map (\<lambda>i. self_labels g ! i) (perm g (base_indices g base)) \<and>
         nrows (self_A (fst (specialize num g (Other_list base))))
           = length (perm g (base_indices g base)) \<and>
         ncols (self_A (fst (specialize num g (Other_list base))))
           = length (perm g (base_indices g base)) \<and>
         (\<forall>r c. ent (self_A (fst (specialize num g (Other_list base)))) r c
                  = ent (self_A g) (perm g (base_indices g base) ! r)
                      (perm g (base_indices g base) ! c)) \<and>
         self_labeler (fst (specialize num g (Other_list base)))
           = zip [0..<self_n g]
               (take (self_n g) (self_labels (fst (specialize num g (Other_list base))))) \<and>
         self_indexer (fst (specialize num g (Other_list base)))
           = dict_zip (take (self_n g) (self_labels (fst (specialize num g (Other_list base)))))
               [0..<self_n g] \<and>
         self_n (fst (specialize num g (Other_list base))) = self_n g \<and>
         self_indices (fst (specialize num g (Other_list base))) = self_indices g \<and>
         self_F (fst (specialize num g (Other_list base))) = self_F g \<and>
         self_origin (fst (specialize num g (Other_list base))) = self_origin g"
  using specialize_selection [OF assms, of num]
  by (simp add: permuted_def Let_def permuted_mat_def)

theorem specialize_permutes_receiver_witness:
  "wf_graph net_half \<and> valid_selection net_half [PInt 1] \<and>
   perm net_half (base_indices net_half [PInt 1]) = [1, 0] \<and>
   self_labels (fst (specialize exact net_half (Other_list [PInt 1])))
     = [PStr ''1'', PStr ''0''] \<and>
   ent (self_A (fst (specialize exact net_half (Other_list [PInt 1])))) 0 1
     = ent (self_A net_half) 1 0 \<and>
   snd (snd (specialize exact net_half (Other_list [PInt 1]))) = Inl IndexError"
proof -
  have vs: "valid_selection net_half [PInt 1]" by code_simp
  have p: "perm net_half (base_indices net_half [PInt 1]) = [1, 0]" by code_simp
  have l: "map (\<lambda>i. self_labels net_half ! i) [1, 0] = [PStr ''1'', PStr ''0'']" by code_simp
  have "map_sum id self_n (snd (snd (specialize exact net_half (Other_list [PInt 1]))))
          = Inl IndexError"
    by code_simp
  then have e: "snd (snd (specialize exact net_half (Other_list [PInt 1]))) = Inl IndexError"
    by (rule map_sum_InlD)
  from specialize_permutes_receiver [OF wf_net_half vs, of exact] p l wf_net_half vs e
  show ?thesis by simp
qed

text \<open>
  The claim as stated fails: after \<open>specialize([1])\<close> on the two-node network, which
  returns a network, the receiver's labels and adjacency matrix are no longer the
  original ones.
\<close>

theorem specialize_mutates_receiver_counterexample:
  "\<not> isl (snd (snd (specialize exact net2 (Other_list [PInt 1])))) \<and>
   self_labels net2 = [PStr ''0'', PStr ''1''] \<and>
   self_labels (fst (specialize exact net2 (Other_list [PInt 1]))) = [PStr ''1'', PStr ''0''] \<and>
   ent (self_A net2) 0 1 = 1 \<and>
   ent (self_A (fst (specialize exact net2 (Other_list [PInt 1])))) 0 1 = 2"
  by code_simp

text \<open>
  Called with its own label list, the receiver ends with a list of indices for labels,
  and the constructor refuses the labels of the result.
\<close>

lemma specialize_own_labels_example:
  "self_labels (fst (specialize exact net2 Own_labels)) = [PInt 0, PInt 1] \<and>
   fst (snd (specialize exact net2 Own_labels)) = [PInt 0, PInt 1] \<and>
   snd (snd (specialize exact net2 Own_labels)) = Inl ValueError"
proof -
  have "map_sum id self_n (snd (snd (specialize exact net2 Own_labels))) = Inl ValueError"
    by code_simp
  then have "snd (snd (specialize exact net2 Own_labels)) = Inl ValueError"
    by (rule map_sum_InlD)
  moreover have "self_labels (fst (specialize exact net2 Own_labels)) = [PInt 0, PInt 1]"
    by code_simp
  moreover have "fst (snd (specialize exact net2 Own_labels)) = [PInt 0, PInt 1]"
    by code_simp
  ultimately show ?thesis by simp
qed

subsection \<open>When specialize raises and when it returns\<close>









lemma updates_keys_subset:
  "fst ` set (AList.updates ks vs al) \<subseteq> set ks \<union> fst ` set al"
proof (induction ks arbitrary: vs al)
  case Nil
  then show ?case by simp
next
  case (Cons k ks)
  show ?case
  proof (cases vs)
    case Nil
    then show ?thesis by auto
  next
    case (Cons v vs')
    have "fst ` set (AList.updates ks vs' (AList.update k v al))
            \<subseteq> set ks \<union> fst ` set (AList.update k v al)"
      by (rule Cons.IH)
    then show ?thesis using Cons by (auto simp: dom_update)
  qed
qed





lemma specialize_outcome:
  assumes wf: "wf_graph g" and vs: "valid_selection g base"
  shows "snd (snd (specialize num g (Other_list base)))
           = specialize_tail num (permuted g (base_indices g base)) (length base)
               (length (spec_set g (base_indices g base)))"
  using specialize_selection [OF wf vs, of num] by simp

lemma length_base_indices: "length (base_indices g base) = length base"
  by (simp add: base_indices_def)

lemma specialize_returns_iff:
  assumes wf: "wf_graph g" and vs: "valid_selection g base"
  shows "(pairings (self_A (permuted g (base_indices g base))) (length base)
            \<le> nat (num_copies num (self_A (permuted g (base_indices g base))) (length base))
          \<longrightarrow> \<not> isl (snd (snd (specialize num g (Other_list base))))) \<and>
         (\<not> pairings (self_A (permuted g (base_indices g base))) (length base)
            \<le> nat (num_copies num (self_A (permuted g (base_indices g base))) (length base))
          \<longrightarrow> snd (snd (specialize num g (Other_list base))) = Inl IndexError)"
proof -
  have vb: "valid_base g (base_indices g base)" by (rule valid_selection_indices [OF wf vs])
  note pf = permuted_facts [OF wf vb, unfolded length_base_indices]
  from specialize_tail_cases [OF pf, of num] specialize_outcome [OF wf vs, of num]
  show ?thesis by auto
qed

lemma known_is_str:
  assumes wf: "wf_graph g" and k: "known (self_indexer g) b"
  shows "is_str b"
proof -
  obtain v where "map_of (self_indexer g) b = Some v" using k by (auto simp: known_def)
  then have "b \<in> fst ` set (self_indexer g)" by (auto dest: map_of_SomeD intro: rev_image_eqI)
  moreover have "fst ` set (self_indexer g) \<subseteq> set (self_labels g)"
    using wf updates_keys_subset [of "self_labels g" "[0..<self_n g]" "[]"]
    by (simp add: wf_graph_def dict_zip_def)
  ultimately show ?thesis using wf by (auto simp: wf_graph_def list_all_iff)
qed

subsection \<open>Error handling\<close>



lemma length_resolved: "length (map (resolved d) base) = length base"
  by simp







subsection \<open>The number of copies\<close>




















lemma specialize_returned:
  assumes wf: "wf_graph g" and vs: "valid_selection g base"
    and le: "pairs g (base_indices g base) \<le> nat (copies num g (base_indices g base))"
  shows "\<exists>r. snd (snd (specialize num g (Other_list base))) = Inr r \<and> wf_graph r \<and>
           self_n r = length base + nat (copies num g (base_indices g base))
                                      * length (spec_set g (base_indices g base)) \<and>
           (\<forall>i<length base. \<forall>j<length base.
              ent (self_A r) i j = ent (self_A (permuted g (base_indices g base))) i j) \<and>
           (\<forall>q<self_n r. self_labels r ! q =
              (if q < length base then self_labels (permuted g (base_indices g base)) ! q
               else suffixed (self_labels (permuted g (base_indices g base))
                                ! (length base + (q - length base)
                                     mod length (spec_set g (base_indices g base))))
                      ((q - length base) div length (spec_set g (base_indices g base))))) \<and>
           self_F r = self_F g \<and>
           self_origin r = (if self_origin g \<noteq> [] then self_origin g else self_indexer r)"
proof -
  have vb: "valid_base g (base_indices g base)" by (rule valid_selection_indices [OF wf vs])
  note pf = permuted_facts [OF wf vb, unfolded length_base_indices]
  have le': "pairings (self_A (permuted g (base_indices g base))) (length base)
      \<le> nat (num_copies num (self_A (permuted g (base_indices g base))) (length base))"
    using le by (simp add: pairs_def copies_def length_base_indices)
  have fo: "self_F (permuted g (base_indices g base)) = self_F g"
    "self_origin (permuted g (base_indices g base)) = self_origin g"
    by (simp_all add: permuted_def Let_def)
  from specialize_tail_cases [OF pf, of num] le'
  obtain r where r: "specialize_tail num (permuted g (base_indices g base)) (length base)
        (length (spec_set g (base_indices g base))) = Inr r"
    "wf_graph r"
    "self_n r = length base
       + nat (num_copies num (self_A (permuted g (base_indices g base))) (length base))
           * length (spec_set g (base_indices g base))"
    "\<forall>i<length base. \<forall>j<length base.
       ent (self_A r) i j = ent (self_A (permuted g (base_indices g base))) i j"
    "\<forall>q<self_n r. self_labels r ! q =
       (if q < length base then self_labels (permuted g (base_indices g base)) ! q
        else suffixed (self_labels (permuted g (base_indices g base))
                         ! (length base + (q - length base)
                              mod length (spec_set g (base_indices g base))))
               ((q - length base) div length (spec_set g (base_indices g base))))"
    "self_F r = self_F (permuted g (base_indices g base))"
    "self_origin r = (if self_origin (permuted g (base_indices g base)) \<noteq> []
                      then self_origin (permuted g (base_indices g base))
                      else self_indexer r)"
    by blast
  have o: "snd (snd (specialize num g (Other_list base))) = Inr r"
    using specialize_outcome [OF wf vs, of num] r(1) by simp
  have n: "self_n r = length base + nat (copies num g (base_indices g base))
                                      * length (spec_set g (base_indices g base))"
    using r(3) by (simp add: copies_def length_base_indices)
  have f: "self_F r = self_F g" using r(6) fo by simp
  have og: "self_origin r = (if self_origin g \<noteq> [] then self_origin g else self_indexer r)"
    using r(7) unfolding fo .
  from o r(2) n r(4) r(5) f og show ?thesis by blast
qed

lemma specialize_raised:
  assumes wf: "wf_graph g" and vs: "valid_selection g base"
    and le: "\<not> pairs g (base_indices g base) \<le> nat (copies num g (base_indices g base))"
  shows "snd (snd (specialize num g (Other_list base))) = Inl IndexError"
  using specialize_returns_iff [OF wf vs, of num] le
  by (simp add: pairs_def copies_def length_base_indices)





subsection \<open>The size of the result\<close>




subsection \<open>No copies\<close>



lemma argwhere_no_cols: "ncols M = 0 \<Longrightarrow> argwhere M = []"
  using argwhere_set [of M] by (cases "argwhere M") auto















subsection \<open>The origin registry\<close>

lemma str_find_none: "c \<notin> set s \<Longrightarrow> str_find c s k = - 1"
  by (induction s arbitrary: k) auto

lemma str_find_some:
  "c \<in> set s \<Longrightarrow> str_find c s k = int (k + length (takeWhile (\<lambda>x. x \<noteq> c) s))"
  by (induction s arbitrary: k) auto

lemma takeWhile_notin: "c \<notin> set s \<Longrightarrow> takeWhile (\<lambda>x. x \<noteq> c) s = s"
  by (induction s) auto

lemma str_find_prefix:
  "(if str_find c s 0 \<noteq> - 1 then take (nat (str_find c s 0)) s else s)
     = takeWhile (\<lambda>x. x \<noteq> c) s"
proof (cases "c \<in> set s")
  case True
  have "take (length (takeWhile (\<lambda>x. x \<noteq> c) s)) s = takeWhile (\<lambda>x. x \<noteq> c) s"
    by (metis takeWhile_eq_take)
  then show ?thesis using True by (simp add: str_find_some)
next
  case False
  then show ?thesis by (simp only: str_find_none takeWhile_notin simp_thms if_False)
qed

lemma original_label:
  "dict_get (self_labeler g) i = Inr (PStr s) \<Longrightarrow>
   original g i = dict_get (self_origin g) (PStr (canonical s))"
  using str_find_prefix [of "CHR ''.''" s]
  by (simp add: original_def canonical_def Let_def)

lemma original_canonical:
  assumes wf: "wf_graph g" and i: "i < self_n g" and l: "self_labels g ! i = PStr s"
  shows "original g i = dict_get (self_origin g) (PStr (canonical s))"
proof -
  have "dict_get (self_labeler g) i = Inr (PStr s)"
    using wf i l by (simp add: wf_graph_def dict_get_def map_of_zip_upt)
  then show ?thesis by (rule original_label)
qed

lemma canonical_suffix: "canonical (s @ ''.'' @ d) = canonical s"
  by (induction s) (simp_all add: canonical_def)

lemma resolves_iff:
  "resolves n0 g \<longleftrightarrow> (\<forall>i<self_n g. \<exists>k<n0. original g i = Inr k)"
proof -
  have "\<And>i. (case original g i of Inl e \<Rightarrow> False | Inr k \<Rightarrow> k < n0)
              \<longleftrightarrow> (\<exists>k<n0. original g i = Inr k)"
    by (auto split: sum.splits)
  then show ?thesis by (auto simp: resolves_def list_all_iff)
qed

lemma resolves_origin:
  assumes res: "resolves n0 g" and n: "0 < self_n g"
  shows "self_origin g \<noteq> []"
proof
  assume e: "self_origin g = []"
  obtain k where k: "original g 0 = Inr k" using res n by (auto simp: resolves_iff)
  have "original g 0 \<noteq> Inr k"
    using e by (simp add: original_def dict_get_def Let_def split: sum.splits pyval.splits)
  then show False using k by simp
qed

lemma permuted_label_source:
  assumes wf: "wf_graph g" and vb: "valid_base g base"
    and m: "m < length base + length (spec_set g base)"
  shows "\<exists>j<self_n g. \<exists>s. self_labels g ! j = PStr s \<and>
           self_labels (permuted g base) ! m = PStr s"
proof -
  have lp: "length (perm g base) = length base + length (spec_set g base)"
    by (simp add: perm_def)
  have j: "perm g base ! m < self_n g" using perm_bound [OF wf vb] m lp by simp
  have "is_str (self_labels g ! (perm g base ! m))"
    using wf j by (simp add: wf_graph_def list_all_length)
  then obtain s where s: "self_labels g ! (perm g base ! m) = PStr s"
    by (auto simp: is_str_def split: pyval.splits)
  have "self_labels (permuted g base) ! m = self_labels g ! (perm g base ! m)"
    using m lp by (simp add: permuted_def Let_def)
  then show ?thesis using j s by auto
qed

lemma returned_resolves:
  assumes wf: "wf_graph g" and vb: "valid_base g bi" and res: "resolves n0 g"
    and wfr: "wf_graph r" and org: "self_origin r = self_origin g"
    and labs: "\<forall>q<self_n r. self_labels r ! q =
       (if q < bl then self_labels (permuted g bi) ! q
        else suffixed (self_labels (permuted g bi) ! (bl + (q - bl) mod length (spec_set g bi)))
               ((q - bl) div length (spec_set g bi)))"
    and n: "self_n r = bl + K * length (spec_set g bi)" and bl: "bl = length bi"
    and q: "q < self_n r"
  shows "\<exists>s k. self_labels r ! q = PStr s \<and> dict_get (self_labeler r) q = Inr (PStr s) \<and>
           original r q = dict_get (self_origin g) (PStr (canonical s)) \<and>
           original r q = Inr k \<and> k < n0"
proof -
  define sl where "sl = length (spec_set g bi)"
  have "\<exists>j<self_n g. \<exists>s t. self_labels g ! j = PStr s \<and> self_labels r ! q = PStr t \<and>
          canonical t = canonical s"
  proof (cases "q < bl")
    case True
    then have "q < length bi + length (spec_set g bi)" using bl by simp
    from permuted_label_source [OF wf vb this] labs q True show ?thesis by auto
  next
    case False
    have "q < bl + K * sl" "\<not> q < bl" using n q False by (simp_all add: sl_def)
    then have "0 < K * sl" by linarith
    then have sl0: "0 < sl" by simp
    then have "bl + (q - bl) mod sl < length bi + length (spec_set g bi)"
      using bl by (simp add: sl_def)
    from permuted_label_source [OF wf vb this]
    obtain j s where j: "j < self_n g" "self_labels g ! j = PStr s"
      "self_labels (permuted g bi) ! (bl + (q - bl) mod sl) = PStr s" by blast
    have "self_labels r ! q = suffixed (PStr s) ((q - bl) div sl)"
      using labs q False j(3) by (simp add: sl_def)
    then have "self_labels r ! q = PStr (s @ ''.'' @ str_of_nat ((q - bl) div sl + 1))"
      by (simp add: suffixed_def)
    then show ?thesis using j(1) j(2) canonical_suffix by blast
  qed
  then obtain j s t where j: "j < self_n g" "self_labels g ! j = PStr s"
    "self_labels r ! q = PStr t" "canonical t = canonical s" by blast
  have lr: "dict_get (self_labeler r) q = Inr (PStr t)"
    using wfr q j(3) by (simp add: wf_graph_def dict_get_def map_of_zip_upt)
  have o: "original r q = dict_get (self_origin g) (PStr (canonical t))"
    using original_canonical [OF wfr q j(3)] org by simp
  have "original g j = dict_get (self_origin g) (PStr (canonical s))"
    by (rule original_canonical [OF wf j(1) j(2)])
  then have "original r q = original g j" using o j(4) by simp
  moreover obtain k where "original g j = Inr k" "k < n0"
    using res j(1) by (auto simp: resolves_iff)
  ultimately show ?thesis using j(3) lr o by auto
qed

text \<open>
  Claim C4, as the code has it. \<open>original(i)\<close> looks up the label of node \<open>i\<close>, cuts it at
  its first \<open>'.'\<close> and looks the prefix up in \<open>origin\<close>. Let every node of a well-formed
  network resolve in this way to an index below \<open>n0\<close>, and let \<open>specialize\<close> be called
  with a valid selection in a list that is not the receiver's own label list. Then the
  call returns exactly when the number of pairings is at most \<open>num_copies\<close> (and raises
  IndexError otherwise), and the network returned is well formed, has the origin and
  the functional matrix of the receiver, and every node of it resolves to an index
  below \<open>n0\<close>: so the same holds after any number of specialisations.
\<close>

theorem specialize_keeps_origin:
  assumes wf: "wf_graph g" and vs: "valid_selection g base" and res: "resolves n0 g"
  shows "if pairs g (base_indices g base) \<le> nat (copies num g (base_indices g base))
         then \<exists>r. snd (snd (specialize num g (Other_list base))) = Inr r \<and>
                wf_graph r \<and> self_origin r = self_origin g \<and> self_F r = self_F g \<and>
                resolves n0 r \<and>
                (\<forall>i<self_n r. \<exists>s k. dict_get (self_labeler r) i = Inr (PStr s) \<and>
                    original r i = dict_get (self_origin g) (PStr (canonical s)) \<and>
                    original r i = Inr k \<and> k < n0)
         else snd (snd (specialize num g (Other_list base))) = Inl IndexError"
proof (cases "pairs g (base_indices g base) \<le> nat (copies num g (base_indices g base))")
  case True
  define bi where "bi = base_indices g base"
  have vb: "valid_base g bi" unfolding bi_def by (rule valid_selection_indices [OF wf vs])
  have lb: "length base = length bi" by (simp add: bi_def length_base_indices)
  have n0: "0 < self_n g" using vb by (cases bi) (auto simp: valid_base_def)
  have og: "self_origin g \<noteq> []" by (rule resolves_origin [OF res n0])
  from specialize_returned [OF wf vs True]
  obtain r where r: "snd (snd (specialize num g (Other_list base))) = Inr r" "wf_graph r"
    "self_n r = length base + nat (copies num g bi) * length (spec_set g bi)"
    "\<forall>q<self_n r. self_labels r ! q =
       (if q < length base then self_labels (permuted g bi) ! q
        else suffixed (self_labels (permuted g bi)
                         ! (length base + (q - length base) mod length (spec_set g bi)))
               ((q - length base) div length (spec_set g bi)))"
    "self_F r = self_F g"
    "self_origin r = (if self_origin g \<noteq> [] then self_origin g else self_indexer r)"
    unfolding bi_def by blast
  have org: "self_origin r = self_origin g" using r(6) og by simp
  have each: "\<forall>i<self_n r. \<exists>s k. dict_get (self_labeler r) i = Inr (PStr s) \<and>
                    original r i = dict_get (self_origin g) (PStr (canonical s)) \<and>
                    original r i = Inr k \<and> k < n0"
    using returned_resolves [OF wf vb res r(2) org r(4) r(3) lb] by blast
  then have "resolves n0 r" unfolding resolves_iff by blast
  with r(1) r(2) org r(5) each True show ?thesis by auto
next
  case False
  then show ?thesis using specialize_raised [OF wf vs] by simp
qed

theorem specialize_keeps_origin_witness:
  "wf_graph net2 \<and> valid_selection net2 [PInt 0] \<and> resolves 2 net2 \<and>
   pairs net2 [PInt 0] \<le> nat (copies exact net2 [PInt 0]) \<and>
   map_sum id (\<lambda>r. (self_origin r, resolves 2 r))
     (snd (snd (specialize exact net2 (Other_list [PInt 0]))))
     = Inr (self_origin net2, True)"
proof -
  have vs: "valid_selection net2 [PInt 0]" by code_simp
  have bi: "base_indices net2 [PInt 0] = [PInt 0]" by code_simp
  have res: "resolves 2 net2" by code_simp
  have le: "pairs net2 [PInt 0] \<le> nat (copies exact net2 [PInt 0])" by code_simp
  from specialize_keeps_origin [OF wf_net2 vs res, of exact, unfolded bi] le
  obtain r where "snd (snd (specialize exact net2 (Other_list [PInt 0]))) = Inr r"
    "self_origin r = self_origin net2" "resolves 2 r"
    by auto
  then have "map_sum id (\<lambda>r. (self_origin r, resolves 2 r))
     (snd (snd (specialize exact net2 (Other_list [PInt 0]))))
     = Inr (self_origin net2, True)"
    by simp
  with wf_net2 vs res le show ?thesis by blast
qed

text \<open>
  The claim as stated fails for a label that holds a \<open>'.'\<close> itself: the network with the
  labels \<open>'a.b'\<close> and \<open>'c'\<close> is built by the constructor, \<open>specialize([0])\<close> returns a
  network with the labels \<open>'a.b'\<close> and \<open>'c.1'\<close>, and \<open>original(0)\<close> raises KeyError on it,
  because \<open>'a'\<close> is no key of \<open>origin\<close>.
\<close>

theorem original_dotted_label_counterexample:
  "wf_graph net_dot \<and> valid_selection net_dot [PInt 0] \<and>
   map_sum id (\<lambda>r. (self_labels r, original r 0, original r 1))
     (snd (snd (specialize exact net_dot (Other_list [PInt 0]))))
     = Inr ([PStr ''a.b'', PStr ''c.1''], Inl KeyError, Inr 1)"
proof -
  have a: "valid_selection net_dot [PInt 0]" by code_simp
  have b: "map_sum id (\<lambda>r. (self_labels r, original r 0, original r 1))
     (snd (snd (specialize exact net_dot (Other_list [PInt 0]))))
     = Inr ([PStr ''a.b'', PStr ''c.1''], Inl KeyError, Inr 1)"
    by code_simp
  from wf_net_dot a b show ?thesis by blast
qed

subsection \<open>The stability matrix and the spectral radius\<close>

lemma stability_entry_value:
  assumes "domain \<noteq> []"
  shows "stability_entry deriv domain f = Inr (Max ((\<lambda>x. \<bar>- deriv f x\<bar>) ` set domain))"
proof -
  have "set (map abs (map (\<lambda>x. - 1 * deriv f x) domain)) = (\<lambda>x. \<bar>- deriv f x\<bar>) ` set domain"
    by auto
  then show ?thesis using assms by (simp add: stability_entry_def np_max_def Let_def)
qed

lemma has_none_cells:
  assumes "\<not> has_none (Some Fm)" and "i < fdim Fm" and "j < fdim Fm"
  shows "\<exists>f. f_get Fm i j = Inr f \<and> fent Fm i j = Some f"
proof -
  have "fent Fm i j \<noteq> None"
    using assms by (auto simp: has_none_def list_ex_iff)
  then show ?thesis using assms by (auto simp: f_get_def)
qed

lemma stability_rows_value:
  assumes F: "self_F g = Some Fm" and res: "resolves (fdim Fm) g"
    and cells: "\<not> has_none (self_F g)" and dom: "domain \<noteq> []"
  shows "stability_rows deriv domain g =
           Inr (map (\<lambda>i. map (\<lambda>j. Max ((\<lambda>x. \<bar>- deriv (the (fent Fm (projr (original g i))
                                       (projr (original g j)))) x\<bar>) ` set domain))
                            [0..<self_n g]) [0..<self_n g])"
proof -
  have o: "\<And>i. i < self_n g \<Longrightarrow>
             original g i = Inr (projr (original g i)) \<and> projr (original g i) < fdim Fm"
    using res by (auto simp: resolves_iff)
  have e: "\<And>i j. i < self_n g \<Longrightarrow> j < self_n g \<Longrightarrow>
      ebind (original g j) (\<lambda>o_j.
         ebind (F_get (self_F g) (projr (original g i)) o_j) (stability_entry deriv domain))
      = Inr (Max ((\<lambda>x. \<bar>- deriv (the (fent Fm (projr (original g i))
                                       (projr (original g j)))) x\<bar>) ` set domain))"
  proof -
    fix i j assume i: "i < self_n g" and j: "j < self_n g"
    from has_none_cells [of Fm "projr (original g i)" "projr (original g j)"] cells F o [OF i] o [OF j]
    obtain f where f: "f_get Fm (projr (original g i)) (projr (original g j)) = Inr f"
      "fent Fm (projr (original g i)) (projr (original g j)) = Some f" by auto
    have "ebind (original g j) (\<lambda>o_j.
         ebind (F_get (self_F g) (projr (original g i)) o_j) (stability_entry deriv domain))
       = ebind (Inr (projr (original g j))) (\<lambda>o_j.
         ebind (F_get (self_F g) (projr (original g i)) o_j) (stability_entry deriv domain))"
      using o [OF j] by simp
    also have "\<dots> = stability_entry deriv domain f"
      using f(1) F by (simp add: ebind_def F_get_def)
    finally show "ebind (original g j) (\<lambda>o_j.
         ebind (F_get (self_F g) (projr (original g i)) o_j) (stability_entry deriv domain))
      = Inr (Max ((\<lambda>x. \<bar>- deriv (the (fent Fm (projr (original g i))
                                       (projr (original g j)))) x\<bar>) ` set domain))"
      using f(2) stability_entry_value [OF dom, of deriv f] by simp
  qed
  have r: "\<And>i. i \<in> set [0..<self_n g] \<Longrightarrow>
      ebind (original g i) (\<lambda>o_i.
             mapE (\<lambda>j. ebind (original g j) (\<lambda>o_j.
                     ebind (F_get (self_F g) o_i o_j) (stability_entry deriv domain)))
               [0..<self_n g])
      = Inr (map (\<lambda>j. Max ((\<lambda>x. \<bar>- deriv (the (fent Fm (projr (original g i))
                                       (projr (original g j)))) x\<bar>) ` set domain))
               [0..<self_n g])"
  proof -
    fix i assume "i \<in> set [0..<self_n g]"
    then have i: "i < self_n g" by simp
    have "ebind (original g i) (\<lambda>o_i.
             mapE (\<lambda>j. ebind (original g j) (\<lambda>o_j.
                     ebind (F_get (self_F g) o_i o_j) (stability_entry deriv domain)))
               [0..<self_n g])
        = ebind (Inr (projr (original g i))) (\<lambda>o_i.
             mapE (\<lambda>j. ebind (original g j) (\<lambda>o_j.
                     ebind (F_get (self_F g) o_i o_j) (stability_entry deriv domain)))
               [0..<self_n g])"
      using o [OF i] by simp
    also have "\<dots> = mapE (\<lambda>j. ebind (original g j) (\<lambda>o_j.
                     ebind (F_get (self_F g) (projr (original g i)) o_j)
                       (stability_entry deriv domain)))
               [0..<self_n g]"
      by (simp add: ebind_def)
    also have "\<dots> = Inr (map (\<lambda>j. Max ((\<lambda>x. \<bar>- deriv (the (fent Fm (projr (original g i))
                                       (projr (original g j)))) x\<bar>) ` set domain))
               [0..<self_n g])"
      by (rule mapE_Inr) (simp add: e [OF i])
    finally show "ebind (original g i) (\<lambda>o_i.
             mapE (\<lambda>j. ebind (original g j) (\<lambda>o_j.
                     ebind (F_get (self_F g) o_i o_j) (stability_entry deriv domain)))
               [0..<self_n g])
      = Inr (map (\<lambda>j. Max ((\<lambda>x. \<bar>- deriv (the (fent Fm (projr (original g i))
                                       (projr (original g j)))) x\<bar>) ` set domain))
               [0..<self_n g])" .
  qed
  show ?thesis unfolding stability_rows_def by (rule mapE_Inr) (rule r)
qed


text \<open>
  Claim C9. Let the network have a functional matrix without empty cell, every node of
  which resolves through \<open>original\<close> to an index of that matrix, and let the sample of
  the domain be non-empty. Then \<open>stability_matrix()\<close> returns an \<open>n\<close> by \<open>n\<close> matrix whose
  entry \<open>(i, j)\<close> is the maximum over the sample of the absolute value of the negated
  derivative of \<open>F[original(i), original(j)]\<close>, which is the maximum of the absolute
  value of the derivative itself; and \<open>spectral_radius()\<close> returns the largest modulus
  among the eigenvalues that the solver returns for that matrix.
\<close>

theorem stability_matrix_spectral_radius:
  assumes F: "self_F g = Some Fm" and res: "resolves (fdim Fm) g"
    and cells: "\<not> has_none (self_F g)" and dom: "domain \<noteq> []"
  shows "\<exists>Df. stability_matrix deriv domain g = Inr Df \<and>
           nrows Df = self_n g \<and> ncols Df = self_n g \<and>
           (\<forall>i<self_n g. \<forall>j<self_n g.
              \<exists>o_i o_j func. original g i = Inr o_i \<and> original g j = Inr o_j \<and>
                 F_get (self_F g) o_i o_j = Inr func \<and>
                 ent Df i j = Max ((\<lambda>x. \<bar>- deriv func x\<bar>) ` set domain) \<and>
                 ent Df i j = Max ((\<lambda>x. \<bar>deriv func x\<bar>) ` set domain)) \<and>
           (eig Df \<noteq> [] \<longrightarrow>
              spectral_radius eig deriv domain g = Inr (Max (cmod ` set (eig Df))))"
proof -
  define entry where "entry = (\<lambda>i j. Max ((\<lambda>x. \<bar>- deriv (the (fent Fm (projr (original g i))
                                       (projr (original g j)))) x\<bar>) ` set domain))"
  define rows where "rows = map (\<lambda>i. map (\<lambda>j. entry i j) [0..<self_n g]) [0..<self_n g]"
  define Df where "Df = \<lparr> nrows = self_n g, ncols = self_n g, ent = (\<lambda>i j. rows ! i ! j) \<rparr>"
  have sr: "stability_rows deriv domain g = Inr rows"
    unfolding rows_def entry_def by (rule stability_rows_value [OF F res cells dom])
  have sm: "stability_matrix deriv domain g = Inr Df"
    by (simp add: stability_matrix_def sr ebind_def Df_def)
  have d: "nrows Df = self_n g" "ncols Df = self_n g" by (simp_all add: Df_def)
  have en: "\<forall>i<self_n g. \<forall>j<self_n g.
              \<exists>o_i o_j func. original g i = Inr o_i \<and> original g j = Inr o_j \<and>
                 F_get (self_F g) o_i o_j = Inr func \<and>
                 ent Df i j = Max ((\<lambda>x. \<bar>- deriv func x\<bar>) ` set domain) \<and>
                 ent Df i j = Max ((\<lambda>x. \<bar>deriv func x\<bar>) ` set domain)"
  proof (intro allI impI)
    fix i j assume i: "i < self_n g" and j: "j < self_n g"
    have oi: "original g i = Inr (projr (original g i))" "projr (original g i) < fdim Fm"
      using res i by (auto simp: resolves_iff)
    have oj: "original g j = Inr (projr (original g j))" "projr (original g j) < fdim Fm"
      using res j by (auto simp: resolves_iff)
    from has_none_cells [of Fm "projr (original g i)" "projr (original g j)"] cells F oi(2) oj(2)
    obtain f where f: "f_get Fm (projr (original g i)) (projr (original g j)) = Inr f"
      "fent Fm (projr (original g i)) (projr (original g j)) = Some f" by auto
    have fg: "F_get (self_F g) (projr (original g i)) (projr (original g j)) = Inr f"
      using f(1) F by (simp add: F_get_def)
    have e1: "ent Df i j = Max ((\<lambda>x. \<bar>- deriv f x\<bar>) ` set domain)"
      using i j f(2) by (simp add: Df_def rows_def entry_def)
    have e2: "ent Df i j = Max ((\<lambda>x. \<bar>deriv f x\<bar>) ` set domain)"
      using e1 by simp
    from oi(1) oj(1) fg e1 e2
    show "\<exists>o_i o_j func. original g i = Inr o_i \<and> original g j = Inr o_j \<and>
                 F_get (self_F g) o_i o_j = Inr func \<and>
                 ent Df i j = Max ((\<lambda>x. \<bar>- deriv func x\<bar>) ` set domain) \<and>
                 ent Df i j = Max ((\<lambda>x. \<bar>deriv func x\<bar>) ` set domain)"
      by blast
  qed
  have rad: "eig Df \<noteq> [] \<longrightarrow>
              spectral_radius eig deriv domain g = Inr (Max (cmod ` set (eig Df)))"
    by (simp add: spectral_radius_def sm ebind_def np_max_def)
  from sm d en rad show ?thesis by blast
qed

theorem stability_matrix_spectral_radius_witness:
  "self_F net_f = Some \<lparr> fdim = 1, fent = (\<lambda>i j. Some (\<lambda>x. 3 * x)) \<rparr> \<and>
   resolves 1 net_f \<and> \<not> has_none (self_F net_f) \<and> [- 10, 10 :: real] \<noteq> [] \<and>
   map_sum id (\<lambda>Df. (nrows Df, ncols Df, ent Df 0 0)) (stability_matrix quotient [- 10, 10] net_f)
     = Inr (1, 1, 3) \<and>
   spectral_radius eig1 quotient [- 10, 10] net_f = Inr 3"
proof -
  have F: "self_F net_f = Some \<lparr> fdim = 1, fent = (\<lambda>i j. Some (\<lambda>x. 3 * x)) \<rparr>"
    by (simp add: net_f_def)
  have res: "resolves (fdim \<lparr> fdim = 1, fent = (\<lambda>i j. Some (\<lambda>x. 3 * x :: real)) \<rparr>) net_f"
    by (simp add: resolves_def net_f_def original_def dict_get_def Let_def)
  have cells: "\<not> has_none (self_F net_f)" by (simp add: net_f_def has_none_def)
  have dom: "[- 10, 10 :: real] \<noteq> []" by simp
  have n: "self_n net_f = 1" by (simp add: net_f_def)
  from stability_matrix_spectral_radius [OF F res cells dom, of quotient eig1]
  obtain Df where Df: "stability_matrix quotient [- 10, 10] net_f = Inr Df"
    "nrows Df = self_n net_f" "ncols Df = self_n net_f"
    "\<forall>i<self_n net_f. \<forall>j<self_n net_f.
              \<exists>o_i o_j func. original net_f i = Inr o_i \<and> original net_f j = Inr o_j \<and>
                 F_get (self_F net_f) o_i o_j = Inr func \<and>
                 ent Df i j = Max ((\<lambda>x. \<bar>- quotient func x\<bar>) ` set [- 10, 10]) \<and>
                 ent Df i j = Max ((\<lambda>x. \<bar>quotient func x\<bar>) ` set [- 10, 10])"
    "eig1 Df \<noteq> [] \<longrightarrow>
       spectral_radius eig1 quotient [- 10, 10] net_f = Inr (Max (cmod ` set (eig1 Df)))"
    by blast
  from Df(4) n obtain o_i o_j func where
    e: "original net_f 0 = Inr o_i" "original net_f 0 = Inr o_j"
      "F_get (self_F net_f) o_i o_j = Inr func"
      "ent Df 0 0 = Max ((\<lambda>x. \<bar>quotient func x\<bar>) ` set [- 10, 10])"
    by auto
  have "func = (\<lambda>x. 3 * x)"
    using e(1) e(2) e(3)
    by (auto simp: net_f_def original_def dict_get_def Let_def F_get_def f_get_def
        split: if_splits)
  then have v: "ent Df 0 0 = 3" using e(4) by (simp add: quotient_def)
  have m: "map_sum id (\<lambda>Df. (nrows Df, ncols Df, ent Df 0 0))
             (stability_matrix quotient [- 10, 10] net_f) = Inr (1, 1, 3)"
    using Df(1) Df(2) Df(3) n v by simp
  have r: "spectral_radius eig1 quotient [- 10, 10] net_f = Inr 3"
    using Df(5) v by (simp add: eig1_def)
  from F res cells dom m r show ?thesis by simp
qed

subsection \<open>A copy without boundary edges\<close>

text \<open>
  Claim C1 at the two-node network with an edge of weight 2 from node 0 to node 1 and
  an edge of weight 1 back, specialised around the base \<open>[0]\<close>. The weight sums give
  \<open>num_copies = 2\<close>, but the blocks hold one inbound and one outbound entry, so the
  loops go through one pairing. The result has three nodes: the first copy (node 1)
  gets the inbound weight at \<open>(1, 0)\<close> and the outbound weight at \<open>(0, 1)\<close>, and the
  second copy (node 2) has no inbound and no outbound entry at all.
\<close>

theorem specialize_copy_without_edges:
  "wf_graph net2 \<and> valid_selection net2 [PInt 0] \<and>
   num_in exact net2 [PInt 0] = 2 \<and> num_out exact net2 [PInt 0] = 1 \<and>
   copies exact net2 [PInt 0] = 2 \<and> pairs net2 [PInt 0] = 1 \<and>
   map_sum id
     (\<lambda>r. (self_n r, self_labels r,
            map (\<lambda>i. map (\<lambda>j. ent (self_A r) i j) [0..<self_n r]) [0..<self_n r]))
     (snd (snd (specialize exact net2 (Other_list [PInt 0]))))
     = Inr (3, [PStr ''0'', PStr ''1.1'', PStr ''1.2''], [[0, 1, 0], [2, 0, 0], [0, 0, 0]])"
proof -
  have a: "valid_selection net2 [PInt 0]" by code_simp
  have b: "num_in exact net2 [PInt 0] = 2" "num_out exact net2 [PInt 0] = 1" by code_simp+
  have c: "copies exact net2 [PInt 0] = 2" "pairs net2 [PInt 0] = 1" by code_simp+
  have d: "map_sum id
     (\<lambda>r. (self_n r, self_labels r,
            map (\<lambda>i. map (\<lambda>j. ent (self_A r) i j) [0..<self_n r]) [0..<self_n r]))
     (snd (snd (specialize exact net2 (Other_list [PInt 0]))))
     = Inr (3, [PStr ''0'', PStr ''1.1'', PStr ''1.2''], [[0, 1, 0], [2, 0, 0], [0, 0, 0]])"
    by code_simp
  from wf_net2 a b c d show ?thesis by blast
qed

subsection \<open>Networks built by the constructor\<close>

lemma dict_zip_key:
  assumes "k \<in> set ks" and "length ks = length vs"
  shows "\<exists>v. map_of (dict_zip ks vs) k = Some v \<and> v \<in> set vs"
proof -
  have "k \<in> dom (map_of (dict_zip ks vs))"
    using assms by (simp add: dict_zip_def updates_conv' dom_map_upds)
  then obtain v where v: "map_of (dict_zip ks vs) k = Some v" by auto
  then show ?thesis using dict_zip_range [of ks vs k v] by simp
qed

lemma canonical_plain: "CHR ''.'' \<notin> set s \<Longrightarrow> canonical s = s"
  unfolding canonical_def by (rule takeWhile_notin)

lemma constructed_resolves:
  assumes sq: "nrows A = ncols A" and len: "length ls = nrows A" and ne: "ls \<noteq> []"
    and df: "\<forall>s\<in>set ls. CHR ''.'' \<notin> set s"
  shows "\<exists>g. Graph_init A (LabelList (map (\<lambda>s. Hashable (PStr s)) ls)) F None = Inr g \<and>
           wf_graph g \<and> self_n g = nrows A \<and> self_labels g = map PStr ls \<and>
           resolves (nrows A) g"
proof -
  define n where "n = nrows A"
  define labs where "labs = map PStr ls"
  define g where "g = \<lparr> self_A = A, self_n = n, self_labels = labs, self_indices = [0..<n],
      self_labeler = dict_zip [0..<n] labs, self_indexer = dict_zip labs [0..<n],
      self_origin = dict_zip labs [0..<n], self_F = F \<rparr>"
  have ll: "length labs = n" using len by (simp add: labs_def n_def)
  have tv: "map the_val (map (\<lambda>s. Hashable (PStr s)) ls) = labs"
    by (simp add: labs_def the_val_def comp_def)
  define objs where "objs = map (\<lambda>s. Hashable (PStr s)) ls"
  have h: "length objs = nrows A" "objs \<noteq> []" "list_all hashable objs"
    using len ne by (simp_all add: objs_def list_all_iff hashable_def)
  have h3: "obj_is_str (hd objs)"
    using ne by (cases ls) (simp_all add: objs_def obj_is_str_def is_str_def)
  have "Graph_init A (LabelList objs) F None =
          Inr \<lparr> self_A = A, self_n = nrows A, self_labels = map the_val objs,
                self_indices = [0..<nrows A],
                self_labeler = dict_zip [0..<nrows A] (map the_val objs),
                self_indexer = dict_zip (map the_val objs) [0..<nrows A],
                self_origin = dict_zip (map the_val objs) [0..<nrows A],
                self_F = F \<rparr>"
    using h h3 by (simp add: Graph_init_LabelList [OF sq] truthy_def)
  then have gi: "Graph_init A (LabelList (map (\<lambda>s. Hashable (PStr s)) ls)) F None = Inr g"
    unfolding objs_def tv g_def n_def .
  have wf: "wf_graph g"
    using sq ll by (simp add: wf_graph_def g_def n_def dict_zip_upt labs_def list_all_iff is_str_def)
  have "\<forall>i<self_n g. \<exists>k<n. original g i = Inr k"
  proof (intro allI impI)
    fix i assume "i < self_n g"
    then have i: "i < n" by (simp add: g_def)
    have l: "self_labels g ! i = PStr (ls ! i)" using i ll by (simp add: g_def labs_def)
    have c: "canonical (ls ! i) = ls ! i"
      using df i ll by (intro canonical_plain) (simp add: labs_def)
    have "PStr (ls ! i) \<in> set labs" using i ll by (auto simp: labs_def)
    from dict_zip_key [OF this, of "[0..<n]"] ll
    obtain v where v: "map_of (dict_zip labs [0..<n]) (PStr (ls ! i)) = Some v" "v < n" by auto
    have "original g i = dict_get (self_origin g) (PStr (canonical (ls ! i)))"
      using original_canonical [OF wf _ l] i by (simp add: g_def)
    then have "original g i = Inr v" using c v(1) by (simp add: g_def dict_get_def)
    then show "\<exists>k<n. original g i = Inr k" using v(2) by blast
  qed
  then have "resolves n g" by (simp add: resolves_iff)
  with gi wf show ?thesis by (auto simp: g_def n_def labs_def)
qed

end
